theory Spec2Isabelle
  imports Complex_Main "HOL-Library.Word" "HOL-Library.Multiset"
begin

unbundle bit_operations_syntax

section \<open>Composite visibility keys (sfm.hpp, lines 100-104)\<close>

text \<open>
  \<^verbatim>\<open>uint\<close> is a 32-bit unsigned integer: addition wraps modulo \<open>2 ^ 32\<close> and
  \<^verbatim>\<open><<\<close> discards the bits shifted out.
\<close>

type_synonym uint = "32 word"


definition genKey :: "uint \<Rightarrow> uint \<Rightarrow> uint" where
  "genKey img_idx pt_idx = push_bit 16 img_idx + pt_idx"

definition getImIdx :: "uint \<Rightarrow> uint" where
  "getImIdx key = drop_bit 16 key AND 0xFFFF"

definition getPtIdx :: "uint \<Rightarrow> uint" where
  "getPtIdx key = key AND 0xFFFF"

section \<open>Geometry types\<close>

text \<open>
  \<^verbatim>\<open>double\<close> is modelled by \<open>real\<close>: rounding, overflow and the non-finite values of
  IEEE-754 are outside the model. The one place where the real-number reading would
  silently differ from the code is a division by zero (a quotient is \<open>\<plusminus>inf\<close> or
  \<open>NaN\<close> in the code, but \<open>0\<close> in HOL), so every quotient of the source is guarded and the
  model stops with \<open>NonFinite\<close> there. Reading a \<^verbatim>\<open>std::vector\<close> out of range is
  undefined behaviour in the code; the model stops with \<open>OutOfRange\<close>.
\<close>

datatype error = OutOfRange | NonFinite

record Point2d =
  x2d :: real
  y2d :: real

record Point3d =
  x3d :: real
  y3d :: real
  z3d :: real

text \<open>Of \<^verbatim>\<open>cv::KeyPoint\<close> only the pixel position \<^verbatim>\<open>pt\<close> is read.\<close>

record KeyPoint =
  pt :: Point2d

text \<open>
  \<^verbatim>\<open>Vec11d\<close> is a vector of exactly 11 doubles: rotation (0-2), translation (3-5), focal
  length (6), principal point (7-8), radial distortion (9-10). It is only ever indexed with
  the constants 0 to 10.
\<close>

type_synonym Vec11d = "real list"

type_synonym Vec3d = "real \<times> real \<times> real"

type_synonym Matx33d = "Vec3d \<times> Vec3d \<times> Vec3d"

definition add_Point3d :: "Point3d \<Rightarrow> Point3d \<Rightarrow> Point3d" where
  "add_Point3d a b = \<lparr>x3d = x3d a + x3d b, y3d = y3d a + y3d b, z3d = z3d a + z3d b\<rparr>"

definition add_Point2d :: "Point2d \<Rightarrow> Point2d \<Rightarrow> Point2d" where
  "add_Point2d a b = \<lparr>x2d = x2d a + x2d b, y2d = y2d a + y2d b\<rparr>"

definition sub_Point2d :: "Point2d \<Rightarrow> Point2d \<Rightarrow> Point2d" where
  "sub_Point2d a b = \<lparr>x2d = x2d a - x2d b, y2d = y2d a - y2d b\<rparr>"

definition scale_Point2d :: "real \<Rightarrow> Point2d \<Rightarrow> Point2d" where
  "scale_Point2d s a = \<lparr>x2d = s * x2d a, y2d = s * y2d a\<rparr>"

definition mul_Matx33d :: "Matx33d \<Rightarrow> Point3d \<Rightarrow> Point3d" where
  "mul_Matx33d R X =
     (case R of ((r00, r01, r02), (r10, r11, r12), (r20, r21, r22)) \<Rightarrow>
        \<lparr>x3d = r00 * x3d X + r01 * y3d X + r02 * z3d X,
         y3d = r10 * x3d X + r11 * y3d X + r12 * z3d X,
         z3d = r20 * x3d X + r21 * y3d X + r22 * z3d X\<rparr>)"

section \<open>Library rotations\<close>

definition DBL_EPSILON :: real where
  "DBL_EPSILON = 1 / 2 ^ 52"

text \<open>
  \<^verbatim>\<open>cv::Rodrigues\<close> (OpenCV) turns a rotation vector into a rotation matrix: the identity
  when the angle is below \<^verbatim>\<open>DBL_EPSILON\<close>, otherwise
  \<open>cos \<theta> I + (1 - cos \<theta>) r r\<^sup>T + sin \<theta> [r]\<^sub>\<times>\<close> for the unit axis \<open>r\<close>. No statement below
  depends on the formula except through its value at the zero vector.
\<close>

definition Rodrigues :: "Vec3d \<Rightarrow> Matx33d" where
  "Rodrigues rvec =
     (case rvec of (rx, ry, rz) \<Rightarrow>
        let theta = sqrt (rx * rx + ry * ry + rz * rz) in
        if theta < DBL_EPSILON then ((1, 0, 0), (0, 1, 0), (0, 0, 1))
        else
          let c = cos theta; s = sin theta; c1 = 1 - c; itheta = 1 / theta;
              ux = rx * itheta; uy = ry * itheta; uz = rz * itheta
          in ((c + c1 * ux * ux, c1 * ux * uy - s * uz, c1 * ux * uz + s * uy),
              (c1 * ux * uy + s * uz, c + c1 * uy * uy, c1 * uy * uz - s * ux),
              (c1 * ux * uz - s * uy, c1 * uy * uz + s * ux, c + c1 * uz * uz)))"

text \<open>
  \<^verbatim>\<open>ceres::AngleAxisRotatePoint\<close> (Ceres, rotation.h) rotates a point by an angle-axis
  vector, the first three entries of the camera block: Rodrigues' formula when the squared
  angle exceeds the machine epsilon, the first-order expansion \<open>pt + w \<times> pt\<close> otherwise.
  The point block is the \<^verbatim>\<open>cv::Point3d\<close> read as \<^verbatim>\<open>double[3]\<close>.
\<close>

definition AngleAxisRotatePoint :: "real list \<Rightarrow> Point3d \<Rightarrow> Point3d" where
  "AngleAxisRotatePoint angle_axis p =
     (let a0 = angle_axis ! 0; a1 = angle_axis ! 1; a2 = angle_axis ! 2;
          theta2 = a0 * a0 + a1 * a1 + a2 * a2
      in if theta2 > DBL_EPSILON then
           let theta = sqrt theta2; costheta = cos theta; sintheta = sin theta;
               theta_inverse = 1 / theta;
               w0 = a0 * theta_inverse; w1 = a1 * theta_inverse; w2 = a2 * theta_inverse;
               c0 = w1 * z3d p - w2 * y3d p;
               c1 = w2 * x3d p - w0 * z3d p;
               c2 = w0 * y3d p - w1 * x3d p;
               tmp = (w0 * x3d p + w1 * y3d p + w2 * z3d p) * (1 - costheta)
           in \<lparr>x3d = x3d p * costheta + c0 * sintheta + w0 * tmp,
               y3d = y3d p * costheta + c1 * sintheta + w1 * tmp,
               z3d = z3d p * costheta + c2 * sintheta + w2 * tmp\<rparr>
         else
           let c0 = a1 * z3d p - a2 * y3d p;
               c1 = a2 * x3d p - a0 * z3d p;
               c2 = a0 * y3d p - a1 * x3d p
           in \<lparr>x3d = x3d p + c0, y3d = y3d p + c1, z3d = z3d p + c2\<rparr>)"

section \<open>Residual functors (sfm.hpp, lines 13-90)\<close>

record ReprojectionError11DOF =
  x11 :: Point2d

record ReprojectionError7DOF =
  x7 :: Point2d
  c7 :: Point2d

text \<open>
  \<^verbatim>\<open>operator()\<close> of \<^verbatim>\<open>ReprojectionError11DOF\<close>, at \<^verbatim>\<open>T = double\<close>. The result is the pair
  \<^verbatim>\<open>residuals[0], residuals[1]\<close>; the code's return value is always \<^verbatim>\<open>true\<close>.
\<close>

definition call11DOF :: "ReprojectionError11DOF \<Rightarrow> real list \<Rightarrow> Point3d \<Rightarrow> error + real \<times> real" where
  "call11DOF self camera point =
     (let X0 = AngleAxisRotatePoint camera point;
          X = \<lparr>x3d = x3d X0 + camera ! 3, y3d = y3d X0 + camera ! 4, z3d = z3d X0 + camera ! 5\<rparr>;
          f = camera ! 6; cx = camera ! 7; cy = camera ! 8; k1 = camera ! 9; k2 = camera ! 10
      in if z3d X = 0 then Inl NonFinite
         else
           let x_n = x3d X / z3d X;
               y_n = y3d X / z3d X;
               r2 = x_n * x_n + y_n * y_n;
               radial_distort = 1 + r2 * (k1 + k2 * r2);
               x_p = f * radial_distort * x_n + cx;
               y_p = f * radial_distort * y_n + cy
           in Inr (x2d (x11 self) - x_p, y2d (x11 self) - y_p))"

text \<open>\<^verbatim>\<open>operator()\<close> of \<^verbatim>\<open>ReprojectionError7DOF\<close>: it reads entries 0 to 6 of the camera block.\<close>

definition call7DOF :: "ReprojectionError7DOF \<Rightarrow> real list \<Rightarrow> Point3d \<Rightarrow> error + real \<times> real" where
  "call7DOF self camera point =
     (let X0 = AngleAxisRotatePoint camera point;
          X = \<lparr>x3d = x3d X0 + camera ! 3, y3d = y3d X0 + camera ! 4, z3d = z3d X0 + camera ! 5\<rparr>;
          f = camera ! 6
      in if z3d X = 0 then Inl NonFinite
         else
           let x_p = f * x3d X / z3d X + x2d (c7 self);
               y_p = f * y3d X / z3d X + y2d (c7 self)
           in Inr (x2d (x7 self) - x_p, y2d (x7 self) - y_p))"


section \<open>The optimisation problem and the residual builders (sfm.hpp, lines 106-152)\<close>

text \<open>
  A residual block as \<^verbatim>\<open>ceres::Problem::AddResidualBlock\<close> receives it: the cost functor,
  the optional loss, and the addresses of the two parameter blocks. The addresses point
  into \<^verbatim>\<open>views\<close> and \<^verbatim>\<open>Xs\<close>, so they are the indices of the camera and of the point in
  those vectors. The 6-DOF functor \<^verbatim>\<open>ReprojectionError\<close> is declared in
  bundle_adjustment.hpp; only the four arguments of its \<^verbatim>\<open>create\<close> are kept.
\<close>

datatype CostFunction =
  Cost11DOF ReprojectionError11DOF
| Cost7DOF ReprojectionError7DOF
| Cost6DOF Point2d real real real

datatype LossFunction = CauchyLoss real

record ResidualBlock =
  cost_func :: CostFunction
  loss_func :: "LossFunction option"
  view_block :: nat
  X_block :: nat

type_synonym Problem = "ResidualBlock list"

type_synonym VisibilityGraph = "(uint \<times> uint) list"

text \<open>
  The loop \<^verbatim>\<open>for (auto visible = visibility.begin(); visible != visibility.end(); visible++)\<close>
  over an \<^verbatim>\<open>unordered_map\<close>: the map is given as the list of its entries in the order the
  iterator yields them. The body either fails or updates the state.
\<close>

fun for_each_visible :: "(uint \<times> uint \<Rightarrow> 's \<Rightarrow> error + 's) \<Rightarrow> VisibilityGraph \<Rightarrow> 's \<Rightarrow> error + 's" where
  "for_each_visible body [] s = Inr s"
| "for_each_visible body (visible # rest) s =
     (case body visible s of
        Inl e \<Rightarrow> Inl e
      | Inr s' \<Rightarrow> for_each_visible body rest s')"

definition make_loss :: "real \<Rightarrow> LossFunction option" where
  "make_loss loss_width = (if loss_width > 0 then Some (CauchyLoss loss_width) else None)"

definition body11DOF :: "Point3d list \<Rightarrow> KeyPoint list list \<Rightarrow> Vec11d list \<Rightarrow> real \<Rightarrow>
    uint \<times> uint \<Rightarrow> Problem \<Rightarrow> error + Problem" where
  "body11DOF Xs xs views loss_width visible problem =
     (let img_idx = unat (getImIdx (fst visible)); pt_idx = unat (getPtIdx (fst visible)) in
      if \<not> unat (snd visible) < length Xs then Inl OutOfRange
      else if \<not> img_idx < length xs then Inl OutOfRange
      else if \<not> pt_idx < length (xs ! img_idx) then Inl OutOfRange
      else if \<not> img_idx < length views then Inl OutOfRange
      else
        let x = pt (xs ! img_idx ! pt_idx);
            cost = Cost11DOF \<lparr>x11 = x\<rparr>
        in Inr (problem @ [\<lparr>cost_func = cost, loss_func = make_loss loss_width,
                            view_block = img_idx, X_block = unat (snd visible)\<rparr>]))"

definition addCostFunc11DOF :: "Problem \<Rightarrow> Point3d list \<Rightarrow> KeyPoint list list \<Rightarrow> Vec11d list \<Rightarrow>
    VisibilityGraph \<Rightarrow> real \<Rightarrow> error + bool \<times> Problem" where
  "addCostFunc11DOF problem Xs xs views visibility loss_width =
     (case for_each_visible (body11DOF Xs xs views loss_width) visibility problem of
        Inl e \<Rightarrow> Inl e
      | Inr problem' \<Rightarrow> Inr (True, problem'))"

definition body7DOF :: "Point3d list \<Rightarrow> KeyPoint list list \<Rightarrow> Vec11d list \<Rightarrow> real \<Rightarrow>
    uint \<times> uint \<Rightarrow> Problem \<Rightarrow> error + Problem" where
  "body7DOF Xs xs views loss_width visible problem =
     (let img_idx = unat (getImIdx (fst visible)); pt_idx = unat (getPtIdx (fst visible)) in
      if \<not> unat (snd visible) < length Xs then Inl OutOfRange
      else if \<not> img_idx < length xs then Inl OutOfRange
      else if \<not> pt_idx < length (xs ! img_idx) then Inl OutOfRange
      else if \<not> img_idx < length views then Inl OutOfRange
      else
        let x = pt (xs ! img_idx ! pt_idx);
            view = views ! img_idx;
            cost = Cost7DOF \<lparr>x7 = x, c7 = \<lparr>x2d = view ! 7, y2d = view ! 8\<rparr>\<rparr>
        in Inr (problem @ [\<lparr>cost_func = cost, loss_func = make_loss loss_width,
                            view_block = img_idx, X_block = unat (snd visible)\<rparr>]))"

definition addCostFunc7DOF :: "Problem \<Rightarrow> Point3d list \<Rightarrow> KeyPoint list list \<Rightarrow> Vec11d list \<Rightarrow>
    VisibilityGraph \<Rightarrow> real \<Rightarrow> error + bool \<times> Problem" where
  "addCostFunc7DOF problem Xs xs views visibility loss_width =
     (case for_each_visible (body7DOF Xs xs views loss_width) visibility problem of
        Inl e \<Rightarrow> Inl e
      | Inr problem' \<Rightarrow> Inr (True, problem'))"

definition body6DOF :: "Point3d list \<Rightarrow> KeyPoint list list \<Rightarrow> Vec11d list \<Rightarrow> real \<Rightarrow>
    uint \<times> uint \<Rightarrow> Problem \<Rightarrow> error + Problem" where
  "body6DOF Xs xs views loss_width visible problem =
     (let img_idx = unat (getImIdx (fst visible)); pt_idx = unat (getPtIdx (fst visible)) in
      if \<not> unat (snd visible) < length Xs then Inl OutOfRange
      else if \<not> img_idx < length xs then Inl OutOfRange
      else if \<not> pt_idx < length (xs ! img_idx) then Inl OutOfRange
      else if \<not> img_idx < length views then Inl OutOfRange
      else
        let x = pt (xs ! img_idx ! pt_idx);
            view = views ! img_idx;
            cost = Cost6DOF x (view ! 6) (view ! 7) (view ! 8)
        in Inr (problem @ [\<lparr>cost_func = cost, loss_func = make_loss loss_width,
                            view_block = img_idx, X_block = unat (snd visible)\<rparr>]))"

definition addCostFunc6DOF :: "Problem \<Rightarrow> Point3d list \<Rightarrow> KeyPoint list list \<Rightarrow> Vec11d list \<Rightarrow>
    VisibilityGraph \<Rightarrow> real \<Rightarrow> error + bool \<times> Problem" where
  "addCostFunc6DOF problem Xs xs views visibility loss_width =
     (case for_each_visible (body6DOF Xs xs views loss_width) visibility problem of
        Inl e \<Rightarrow> Inl e
      | Inr problem' \<Rightarrow> Inr (True, problem'))"

text \<open>
  Modelled from the spec: the minimal model's functor \<^verbatim>\<open>ReprojectionError\<close> is declared in
  bundle_adjustment.hpp, which is not among the sources. The specification assumes rotation,
  translation and a focal length with an externally fixed principal point and no distortion;
  the focal length and the principal point are the arguments of \<^verbatim>\<open>create\<close>.
\<close>

definition call6DOF :: "Point2d \<Rightarrow> real \<Rightarrow> real \<Rightarrow> real \<Rightarrow> real list \<Rightarrow> Point3d \<Rightarrow> error + real \<times> real" where
  "call6DOF x f cx cy camera point =
     (let X0 = AngleAxisRotatePoint camera point;
          X = \<lparr>x3d = x3d X0 + camera ! 3, y3d = y3d X0 + camera ! 4, z3d = z3d X0 + camera ! 5\<rparr>
      in if z3d X = 0 then Inl NonFinite
         else Inr (x2d x - (f * x3d X / z3d X + cx), y2d x - (f * y3d X / z3d X + cy)))"

text \<open>
  What the solver computes for a registered block: the functor applied to the current
  contents of the two parameter blocks it was registered with.
\<close>

definition evaluate_block :: "Point3d list \<Rightarrow> Vec11d list \<Rightarrow> ResidualBlock \<Rightarrow> error + real \<times> real" where
  "evaluate_block Xs views b =
     (if \<not> (view_block b < length views \<and> X_block b < length Xs) then Inl OutOfRange
      else case cost_func b of
        Cost11DOF r \<Rightarrow> call11DOF r (views ! view_block b) (Xs ! X_block b)
      | Cost7DOF r \<Rightarrow> call7DOF r (views ! view_block b) (Xs ! X_block b)
      | Cost6DOF x f cx cy \<Rightarrow> call6DOF x f cx cy (views ! view_block b) (Xs ! X_block b))"

section \<open>The outlier marker (sfm.hpp, lines 154-187)\<close>

text \<open>
  Lines 167-179: the squared distance between the observation \<open>x\<close> and the projection of
  \<open>X\<close> by the camera \<open>view\<close>.
\<close>

definition reproj_dist2 :: "Vec11d \<Rightarrow> Point3d \<Rightarrow> Point2d \<Rightarrow> error + real" where
  "reproj_dist2 view X x =
     (let rvec = (view ! 0, view ! 1, view ! 2);
          R = Rodrigues rvec;
          X_p = add_Point3d (mul_Matx33d R X) \<lparr>x3d = view ! 3, y3d = view ! 4, z3d = view ! 5\<rparr>;
          f = view ! 6; k1 = view ! 9; k2 = view ! 10
      in if z3d X_p = 0 then Inl NonFinite
         else
           let x_n = \<lparr>x2d = x3d X_p / z3d X_p, y2d = y3d X_p / z3d X_p\<rparr>;
               c = \<lparr>x2d = view ! 7, y2d = view ! 8\<rparr>;
               r2 = x2d x_n * x2d x_n + y2d x_n * y2d x_n;
               radial_distort = 1 + r2 * (k1 + k2 * r2);
               x_p = add_Point2d (scale_Point2d (f * radial_distort) x_n) c;
               d = sub_Point2d x x_p
           in Inr (x2d d * x2d d + y2d d * y2d d))"

text \<open>
  One iteration of the loop, on the state \<open>(Xs, n_mark)\<close>. \<^verbatim>\<open>n_mark\<close> is a C++ \<^verbatim>\<open>int\<close>; it
  grows by at most one per entry (lemma \<open>markNoisyPoints_count_bounds\<close>), so it is an
  unbounded \<open>int\<close> here.
\<close>

definition mark_body :: "KeyPoint list list \<Rightarrow> Vec11d list \<Rightarrow> real \<Rightarrow>
    uint \<times> uint \<Rightarrow> Point3d list \<times> int \<Rightarrow> error + Point3d list \<times> int" where
  "mark_body xs views reproj_error2 visible st =
     (case st of (Xs, n_mark) \<Rightarrow>
        if \<not> unat (snd visible) < length Xs then Inl OutOfRange
        else
          let X = Xs ! unat (snd visible) in
          if z3d X < 0 then Inr (Xs, n_mark)
          else
            let img_idx = unat (getImIdx (fst visible)); pt_idx = unat (getPtIdx (fst visible)) in
            if \<not> img_idx < length xs then Inl OutOfRange
            else if \<not> pt_idx < length (xs ! img_idx) then Inl OutOfRange
            else if \<not> img_idx < length views then Inl OutOfRange
            else
              let x = pt (xs ! img_idx ! pt_idx);
                  view = views ! img_idx
              in case reproj_dist2 view X x of
                   Inl e \<Rightarrow> Inl e
                 | Inr d2 \<Rightarrow>
                     if d2 > reproj_error2
                     then Inr (Xs[unat (snd visible) := X\<lparr>z3d := z3d X * - 1\<rparr>], n_mark + 1)
                     else Inr (Xs, n_mark))"

text \<open>The function returns the count and leaves the updated points in \<open>Xs\<close>.\<close>

definition markNoisyPoints :: "Point3d list \<Rightarrow> KeyPoint list list \<Rightarrow> Vec11d list \<Rightarrow>
    VisibilityGraph \<Rightarrow> real \<Rightarrow> error + int \<times> Point3d list" where
  "markNoisyPoints Xs xs views visibility reproj_error2 =
     (if reproj_error2 \<le> 0 then Inr (- 1, Xs)
      else case for_each_visible (mark_body xs views reproj_error2) visibility (Xs, 0) of
             Inl e \<Rightarrow> Inl e
           | Inr (Xs', n_mark) \<Rightarrow> Inr (n_mark, Xs'))"

section \<open>Specification-level notions\<close>

text \<open>A point is valid when its third coordinate is not negative.\<close>

definition valid :: "Point3d \<Rightarrow> bool" where
  "valid X = (\<not> z3d X < 0)"

text \<open>All four indices of a visibility entry are within the vectors they index.\<close>

definition in_range :: "Point3d list \<Rightarrow> KeyPoint list list \<Rightarrow> Vec11d list \<Rightarrow> uint \<times> uint \<Rightarrow> bool" where
  "in_range Xs xs views visible =
     (unat (snd visible) < length Xs \<and>
      unat (getImIdx (fst visible)) < length xs \<and>
      unat (getPtIdx (fst visible)) < length (xs ! unat (getImIdx (fst visible))) \<and>
      unat (getImIdx (fst visible)) < length views)"

text \<open>The squared reprojection error of the observation a visibility entry names.\<close>

definition entry_dist2 :: "Point3d list \<Rightarrow> KeyPoint list list \<Rightarrow> Vec11d list \<Rightarrow> uint \<times> uint \<Rightarrow> error + real" where
  "entry_dist2 Xs xs views visible =
     reproj_dist2 (views ! unat (getImIdx (fst visible))) (Xs ! unat (snd visible))
       (pt (xs ! unat (getImIdx (fst visible)) ! unat (getPtIdx (fst visible))))"

text \<open>
  An entry the marker can process: its indices are in range and, when its point is valid,
  the projected depth is not zero.
\<close>

definition entry_ok :: "Point3d list \<Rightarrow> KeyPoint list list \<Rightarrow> Vec11d list \<Rightarrow> uint \<times> uint \<Rightarrow> bool" where
  "entry_ok Xs xs views visible =
     (in_range Xs xs views visible \<and>
      (z3d (Xs ! unat (snd visible)) < 0 \<or> entry_dist2 Xs xs views visible \<noteq> Inl NonFinite))"

definition exceeds :: "Point3d list \<Rightarrow> KeyPoint list list \<Rightarrow> Vec11d list \<Rightarrow> real \<Rightarrow> uint \<times> uint \<Rightarrow> bool" where
  "exceeds Xs xs views T visible =
     (case entry_dist2 Xs xs views visible of Inl e \<Rightarrow> False | Inr d2 \<Rightarrow> d2 > T)"

text \<open>
  The full projection model in the words of the specification: rotate by the camera's
  axis-angle rotation, translate, divide by the depth, apply second-order radial distortion,
  scale by the focal length and offset by the principal point. A point of depth zero has no
  pixel.
\<close>

definition project_full :: "real list \<Rightarrow> Point3d \<Rightarrow> Point2d option" where
  "project_full camera point =
     (let rotated = AngleAxisRotatePoint camera point;
          depth = z3d rotated + camera ! 5
      in if depth = 0 then None
         else
           let u = (x3d rotated + camera ! 3) / depth;
               v = (y3d rotated + camera ! 4) / depth;
               r2 = u\<^sup>2 + v\<^sup>2;
               distortion = 1 + camera ! 9 * r2 + camera ! 10 * r2\<^sup>2
           in Some \<lparr>x2d = camera ! 6 * (distortion * u) + camera ! 7,
                    y2d = camera ! 6 * (distortion * v) + camera ! 8\<rparr>)"

text \<open>The update \<^verbatim>\<open>X.z *= -1\<close> of line 182.\<close>

definition negate_z :: "Point3d \<Rightarrow> Point3d" where
  "negate_z X = X\<lparr>z3d := z3d X * - 1\<rparr>"

text \<open>
  \<open>marked_from Xs Xs'\<close>: the points \<open>Xs'\<close> come from \<open>Xs\<close> by negating the third coordinate
  of some valid points and changing nothing else.
\<close>

definition marked_from :: "Point3d list \<Rightarrow> Point3d list \<Rightarrow> bool" where
  "marked_from Xs Xs' =
     (length Xs' = length Xs \<and>
      (\<forall>i < length Xs. Xs' ! i = Xs ! i \<or> (valid (Xs ! i) \<and> Xs' ! i = negate_z (Xs ! i))))"

text \<open>
  One iteration of the marker for an entry it can process, as a total function: the point
  is marked when it is valid and its squared error exceeds the threshold.
\<close>

definition mark_step :: "KeyPoint list list \<Rightarrow> Vec11d list \<Rightarrow> real \<Rightarrow>
    uint \<times> uint \<Rightarrow> Point3d list \<times> int \<Rightarrow> Point3d list \<times> int" where
  "mark_step xs views T v st =
     (case st of (Xs, n) \<Rightarrow>
        if valid (Xs ! unat (snd v)) \<and> exceeds Xs xs views T v
        then (Xs[unat (snd v) := negate_z (Xs ! unat (snd v))], n + 1)
        else (Xs, n))"

text \<open>
  The condition under which the order of the entries cannot matter: every entry can be
  processed and no third coordinate is zero.
\<close>

definition marker_inv :: "KeyPoint list list \<Rightarrow> Vec11d list \<Rightarrow> VisibilityGraph \<Rightarrow> Point3d list \<Rightarrow> bool" where
  "marker_inv xs views vis Xs =
     ((\<forall>v \<in> set vis. entry_ok Xs xs views v) \<and> (\<forall>X \<in> set Xs. z3d X \<noteq> 0))"

text \<open>A sequence of calls, each with its own observations, cameras, visibility and threshold.\<close>

fun mark_calls :: "Point3d list \<Rightarrow> (KeyPoint list list \<times> Vec11d list \<times> VisibilityGraph \<times> real) list \<Rightarrow>
    error + Point3d list" where
  "mark_calls Xs [] = Inr Xs"
| "mark_calls Xs ((xs, views, vis, T) # calls) =
     (case markNoisyPoints Xs xs views vis T of
        Inl e \<Rightarrow> Inl e
      | Inr (n, Xs') \<Rightarrow> mark_calls Xs' calls)"

text \<open>The residual block each builder registers for one visibility entry.\<close>

definition block11DOF :: "KeyPoint list list \<Rightarrow> real \<Rightarrow> uint \<times> uint \<Rightarrow> ResidualBlock" where
  "block11DOF xs loss_width v =
     \<lparr>cost_func = Cost11DOF \<lparr>x11 = pt (xs ! unat (getImIdx (fst v)) ! unat (getPtIdx (fst v)))\<rparr>,
      loss_func = make_loss loss_width,
      view_block = unat (getImIdx (fst v)), X_block = unat (snd v)\<rparr>"

definition block7DOF :: "KeyPoint list list \<Rightarrow> Vec11d list \<Rightarrow> real \<Rightarrow> uint \<times> uint \<Rightarrow> ResidualBlock" where
  "block7DOF xs views loss_width v =
     \<lparr>cost_func = Cost7DOF
        \<lparr>x7 = pt (xs ! unat (getImIdx (fst v)) ! unat (getPtIdx (fst v))),
         c7 = \<lparr>x2d = views ! unat (getImIdx (fst v)) ! 7, y2d = views ! unat (getImIdx (fst v)) ! 8\<rparr>\<rparr>,
      loss_func = make_loss loss_width,
      view_block = unat (getImIdx (fst v)), X_block = unat (snd v)\<rparr>"

definition block6DOF :: "KeyPoint list list \<Rightarrow> Vec11d list \<Rightarrow> real \<Rightarrow> uint \<times> uint \<Rightarrow> ResidualBlock" where
  "block6DOF xs views loss_width v =
     \<lparr>cost_func = Cost6DOF (pt (xs ! unat (getImIdx (fst v)) ! unat (getPtIdx (fst v))))
        (views ! unat (getImIdx (fst v)) ! 6) (views ! unat (getImIdx (fst v)) ! 7)
        (views ! unat (getImIdx (fst v)) ! 8),
      loss_func = make_loss loss_width,
      view_block = unat (getImIdx (fst v)), X_block = unat (snd v)\<rparr>"

section \<open>Concrete scenes\<close>

text \<open>
  Cameras without rotation: at the origin with unit focal length; the same moved back by one
  unit of depth; one with focal length 2, principal point \<open>(1, 1)\<close> and \<open>k1 = 1\<close>; and two
  that differ in their principal points only.
\<close>

definition camera_origin :: Vec11d where
  "camera_origin = [0, 0, 0, 0, 0, 0, 1, 0, 0, 0, 0]"

definition camera_back :: Vec11d where
  "camera_back = [0, 0, 0, 0, 0, 1, 1, 0, 0, 0, 0]"

definition camera_distorting :: Vec11d where
  "camera_distorting = [0, 0, 0, 0, 0, 0, 2, 1, 1, 1, 0]"

definition camera_a :: Vec11d where
  "camera_a = [0, 0, 0, 0, 0, 0, 1, 1, 2, 0, 0]"

definition camera_b :: Vec11d where
  "camera_b = [0, 0, 0, 0, 0, 0, 1, 3, 4, 0, 0]"

text \<open>
  Two points at depth 1 seen by one image. Keypoint 0 observes point 0 three pixels off its
  projection; keypoint 1 observes point 1 exactly.
\<close>

definition scene_Xs :: "Point3d list" where
  "scene_Xs = [\<lparr>x3d = 0, y3d = 0, z3d = 1\<rparr>, \<lparr>x3d = 1, y3d = 0, z3d = 1\<rparr>]"

definition scene_marked :: "Point3d list" where
  "scene_marked = [\<lparr>x3d = 0, y3d = 0, z3d = - 1\<rparr>, \<lparr>x3d = 1, y3d = 0, z3d = 1\<rparr>]"

definition scene_xs :: "KeyPoint list list" where
  "scene_xs = [ [\<lparr>pt = \<lparr>x2d = 3, y2d = 0\<rparr>\<rparr>, \<lparr>pt = \<lparr>x2d = 1, y2d = 0\<rparr>\<rparr>] ]"

definition scene_vis :: VisibilityGraph where
  "scene_vis = [(genKey 0 0, 0), (genKey 0 1, 1)]"

text \<open>
  One point at the world origin, so with third coordinate 0, seen by the camera that is moved
  back; both keypoints observe it three pixels off.
\<close>

definition flat_Xs :: "Point3d list" where
  "flat_Xs = [\<lparr>x3d = 0, y3d = 0, z3d = 0\<rparr>]"

definition flat_xs :: "KeyPoint list list" where
  "flat_xs = [ [\<lparr>pt = \<lparr>x2d = 3, y2d = 0\<rparr>\<rparr>, \<lparr>pt = \<lparr>x2d = 0, y2d = 3\<rparr>\<rparr>] ]"

definition flat_vis :: VisibilityGraph where
  "flat_vis = [(genKey 0 0, 0), (genKey 0 1, 0)]"

section \<open>Properties of the key encoding\<close>

lemma unat_genKey:
  "unat (genKey i p) = (unat i * 2 ^ 16 + unat p) mod 2 ^ 32"
  by (simp add: genKey_def unat_word_ariths push_bit_eq_mult mod_simps)

lemma unat_getPtIdx: "unat (getPtIdx k) = unat k mod 2 ^ 16"
proof -
  have "getPtIdx k = take_bit 16 k"
    by (simp add: getPtIdx_def take_bit_eq_mask mask_eq_exp_minus_1)
  then show ?thesis
    by (simp add: unsigned_take_bit_eq take_bit_eq_mod unat_mod)
qed

lemma unat_getImIdx: "unat (getImIdx k) = unat k div 2 ^ 16 mod 2 ^ 16"
proof -
  have "getImIdx k = take_bit 16 (drop_bit 16 k)"
    by (simp add: getImIdx_def take_bit_eq_mask mask_eq_exp_minus_1)
  then show ?thesis
    by (simp add: unsigned_take_bit_eq take_bit_eq_mod unat_drop_bit_eq drop_bit_eq_div unat_mod unat_div)
qed

text \<open>
  Claim C1. For every image index \<open>i\<close> and point index \<open>p\<close> that each fit in 16 bits,
  decoding the key built by \<open>genKey\<close> gives back both indices.
\<close>

theorem genKey_roundtrip:
  assumes "unat i < 2 ^ 16" and "unat p < 2 ^ 16"
  shows "getImIdx (genKey i p) = i \<and> getPtIdx (genKey i p) = p"
proof -
  have lt: "unat i * 2 ^ 16 + unat p < 2 ^ 32"
    using assms by simp
  have k: "unat (genKey i p) = unat i * 2 ^ 16 + unat p"
    using lt by (simp add: unat_genKey)
  have "unat (getImIdx (genKey i p)) = unat i"
    using assms by (simp add: unat_getImIdx k)
  moreover have "unat (getPtIdx (genKey i p)) = unat p"
    using assms by (simp add: unat_getPtIdx k)
  ultimately show ?thesis
    by (simp add: word_unat_eq_iff)
qed

theorem genKey_roundtrip_witness: "unat (300::uint) < 2 ^ 16 \<and> unat (7::uint) < 2 ^ 16 \<and> getImIdx (genKey 300 7) = 300 \<and> getPtIdx (genKey 300 7) = 7"
  using genKey_roundtrip [of 300 7] by simp

text \<open>
  Claim C9. \<open>genKey\<close> adds its fields modulo \<open>2 ^ 32\<close>, so the part of the point index
  above 16 bits carries into the image field; the pairs \<open>(i, 2 ^ 16)\<close> and \<open>(i + 1, 0)\<close>
  get the same key although they are different pairs.
\<close>

theorem genKey_carry:
  "unat (genKey i p) = (unat i * 2 ^ 16 + unat p) mod 2 ^ 32 \<and>
   unat (getPtIdx (genKey i p)) = unat p mod 2 ^ 16 \<and>
   unat (getImIdx (genKey i p)) = (unat i + unat p div 2 ^ 16) mod 2 ^ 16 \<and>
   genKey i (2 ^ 16) = genKey (i + 1) 0 \<and> (i, 2 ^ 16 :: uint) \<noteq> (i + 1, 0)"
proof -
  have a: "unat (getPtIdx (genKey i p)) = unat p mod 2 ^ 16"
  proof -
    have "(unat i * 2 ^ 16 + unat p) mod 2 ^ 32 mod 2 ^ 16 = (unat i * 2 ^ 16 + unat p) mod (2 ^ 16 :: nat)"
      by (rule mod_mod_cancel) simp
    then show ?thesis by (simp add: unat_getPtIdx unat_genKey)
  qed
  have b: "unat (getImIdx (genKey i p)) = (unat i + unat p div 2 ^ 16) mod 2 ^ 16"
  proof -
    let ?a = "unat i * 2 ^ 16 + unat p"
    have "?a mod 2 ^ 32 div 2 ^ 16 mod 2 ^ 16 = ?a div 2 ^ 16 mod (2 ^ 16 :: nat)"
    proof -
      have "?a mod 2 ^ 32 div 2 ^ 16 = (?a div 2 ^ 16) mod (2 ^ 16 :: nat)"
        using div_exp_mod_exp_eq[of ?a 16 16] by (simp add: drop_bit_eq_div take_bit_eq_mod)
      then show ?thesis by simp
    qed
    moreover have "?a div 2 ^ 16 = unat i + unat p div 2 ^ 16"
      by simp
    ultimately show ?thesis by (simp add: unat_getImIdx unat_genKey)
  qed
  have c: "genKey i (2 ^ 16) = genKey (i + 1) 0"
    by (simp add: genKey_def push_bit_eq_mult algebra_simps)
  have d: "(i, 2 ^ 16 :: uint) \<noteq> (i + 1, 0)"
    by simp
  show ?thesis using a b c d unat_genKey by blast
qed

section \<open>One iteration of the marker\<close>

lemma mark_body_skip:
  assumes "unat (snd v) < length Xs" and "z3d (Xs ! unat (snd v)) < 0"
  shows "mark_body xs views T v (Xs, n) = Inr (Xs, n)"
  using assms by (simp add: mark_body_def)

lemma mark_body_cases:
  assumes "mark_body xs views T v (Xs, n) = Inr (Xs', n')"
  shows "(Xs' = Xs \<and> n' = n) \<or>
         (unat (snd v) < length Xs \<and> valid (Xs ! unat (snd v)) \<and> exceeds Xs xs views T v \<and>
          Xs' = Xs[unat (snd v) := negate_z (Xs ! unat (snd v))] \<and> n' = n + 1)"
  using assms
  by (auto simp: mark_body_def Let_def valid_def negate_z_def exceeds_def entry_dist2_def
      split: if_splits sum.splits)

lemma mark_body_ok:
  assumes "entry_ok Xs xs views v"
  shows "mark_body xs views T v (Xs, n) =
         Inr (if valid (Xs ! unat (snd v)) \<and> exceeds Xs xs views T v
              then (Xs[unat (snd v) := negate_z (Xs ! unat (snd v))], n + 1) else (Xs, n))"
proof (cases "entry_dist2 Xs xs views v")
  case (Inl e)
  then have "e = OutOfRange \<or> z3d (Xs ! unat (snd v)) < 0"
    using assms by (cases e) (auto simp: entry_ok_def)
  moreover have "e \<noteq> OutOfRange"
    using Inl by (auto simp: entry_dist2_def reproj_dist2_def Let_def split: if_splits)
  ultimately show ?thesis
    using assms by (simp add: mark_body_def entry_ok_def in_range_def valid_def)
next
  case (Inr d2)
  then show ?thesis
    using assms
    by (auto simp: mark_body_def entry_ok_def in_range_def valid_def exceeds_def
        entry_dist2_def negate_z_def Let_def)
qed

lemma marked_from_refl: "marked_from Xs Xs"
  by (simp add: marked_from_def)

lemma negate_z_twice: "negate_z (negate_z X) = X"
  by (simp add: negate_z_def)

lemma negate_z_valid_twice: "valid X \<Longrightarrow> valid (negate_z X) \<Longrightarrow> negate_z X = X"
  by (cases X) (simp add: negate_z_def valid_def)

lemma marked_from_trans:
  assumes "marked_from Xs Ys" and "marked_from Ys Zs"
  shows "marked_from Xs Zs"
  unfolding marked_from_def
proof (intro conjI allI impI)
  show "length Zs = length Xs"
    using assms by (simp add: marked_from_def)
next
  fix i assume i: "i < length Xs"
  then have a: "Ys ! i = Xs ! i \<or> (valid (Xs ! i) \<and> Ys ! i = negate_z (Xs ! i))"
    and b: "Zs ! i = Ys ! i \<or> (valid (Ys ! i) \<and> Zs ! i = negate_z (Ys ! i))"
    using assms by (simp_all add: marked_from_def)
  show "Zs ! i = Xs ! i \<or> (valid (Xs ! i) \<and> Zs ! i = negate_z (Xs ! i))"
    using a b negate_z_valid_twice[of "Xs ! i"] by (auto simp: negate_z_twice)
qed

lemma marked_from_update:
  assumes "j < length Xs" and "valid (Xs ! j)"
  shows "marked_from Xs (Xs[j := negate_z (Xs ! j)])"
  using assms by (simp add: marked_from_def nth_list_update)

lemma mark_body_marked_from:
  assumes "mark_body xs views T v (Xs, n) = Inr (Xs', n')"
  shows "marked_from Xs Xs' \<and> n \<le> n' \<and> n' \<le> n + 1"
  using mark_body_cases[OF assms] by (auto simp: marked_from_refl marked_from_update)

lemma loop_marked_from:
  assumes "for_each_visible (mark_body xs views T) vis (Xs, n) = Inr (Xs', n')"
  shows "marked_from Xs Xs' \<and> n \<le> n' \<and> n' \<le> n + int (length vis)"
  using assms
proof (induction vis arbitrary: Xs n)
  case Nil
  then show ?case by (simp add: marked_from_refl)
next
  case (Cons v vis)
  then obtain Ys m where step: "mark_body xs views T v (Xs, n) = Inr (Ys, m)"
    and rest: "for_each_visible (mark_body xs views T) vis (Ys, m) = Inr (Xs', n')"
    by (auto split: sum.splits)
  from mark_body_marked_from[OF step] Cons.IH[OF rest] show ?case
    by (auto intro: marked_from_trans)
qed


lemma entry_dist2_update_other:
  assumes "unat (snd v) \<noteq> j"
  shows "entry_dist2 (Xs[j := p]) xs views v = entry_dist2 Xs xs views v"
  using assms by (simp add: entry_dist2_def)

lemma exceeds_update_other:
  assumes "unat (snd v) \<noteq> j"
  shows "exceeds (Xs[j := p]) xs views T v = exceeds Xs xs views T v"
  using assms by (simp add: exceeds_def entry_dist2_update_other)

lemma entry_ok_update:
  assumes ok: "entry_ok Xs xs views v" and j: "j < length Xs" and val: "valid (Xs ! j)"
  shows "entry_ok (Xs[j := negate_z (Xs ! j)]) xs views v"
proof (cases "unat (snd v) = j")
  case False
  then show ?thesis
    using ok by (simp add: entry_ok_def in_range_def entry_dist2_update_other)
next
  case True
  show ?thesis
  proof (cases "z3d (Xs ! j) = 0")
    case True
    then have "negate_z (Xs ! j) = Xs ! j"
      by (simp add: negate_z_def)
    then show ?thesis using ok by simp
  next
    case False
    then have "z3d (negate_z (Xs ! j)) < 0"
      using val by (simp add: negate_z_def valid_def)
    then show ?thesis
      using ok j \<open>unat (snd v) = j\<close> by (simp add: entry_ok_def in_range_def)
  qed
qed

lemma mark_body_entry_ok:
  assumes "mark_body xs views T w (Xs, n) = Inr (Xs', n')" and "entry_ok Xs xs views v"
  shows "entry_ok Xs' xs views v"
  using mark_body_cases[OF assms(1)] assms(2) by (auto intro: entry_ok_update)

lemma loop_total:
  assumes "\<forall>v \<in> set vis. entry_ok Xs xs views v"
  shows "\<exists>Xs' n'. for_each_visible (mark_body xs views T) vis (Xs, n) = Inr (Xs', n')"
  using assms
proof (induction vis arbitrary: Xs n)
  case Nil
  then show ?case by simp
next
  case (Cons w vis)
  then have "entry_ok Xs xs views w" by simp
  from mark_body_ok[OF this] obtain Ys m where step: "mark_body xs views T w (Xs, n) = Inr (Ys, m)"
    by (metis surj_pair)
  have "\<forall>v \<in> set vis. entry_ok Ys xs views v"
    using Cons.prems mark_body_entry_ok[OF step] by simp
  from Cons.IH[OF this] show ?case
    using step by simp
qed

section \<open>The marker as a fold, and the order of the entries\<close>

lemma mark_body_step:
  assumes "entry_ok Xs xs views v"
  shows "mark_body xs views T v (Xs, n) = Inr (mark_step xs views T v (Xs, n))"
  using mark_body_ok[OF assms] by (simp add: mark_step_def)

lemma mark_step_entry_ok:
  assumes "entry_ok Xs xs views w" and "entry_ok Xs xs views v"
  shows "entry_ok (fst (mark_step xs views T w (Xs, n))) xs views v"
proof (cases "valid (Xs ! unat (snd w)) \<and> exceeds Xs xs views T w")
  case False
  then show ?thesis using assms(2) by (auto simp: mark_step_def)
next
  case True
  have "unat (snd w) < length Xs"
    using assms(1) by (simp add: entry_ok_def in_range_def)
  then have "entry_ok (Xs[unat (snd w) := negate_z (Xs ! unat (snd w))]) xs views v"
    using True assms(2) by (simp add: entry_ok_update)
  then show ?thesis using True by (simp add: mark_step_def)
qed

lemma negate_z_nonzero: "z3d X \<noteq> 0 \<Longrightarrow> z3d (negate_z X) \<noteq> 0"
  by (simp add: negate_z_def)

lemma mark_step_nonzero:
  assumes "\<forall>X \<in> set Xs. z3d X \<noteq> 0"
  shows "\<forall>X \<in> set (fst (mark_step xs views T w (Xs, n))). z3d X \<noteq> 0"
proof (cases "valid (Xs ! unat (snd w)) \<and> exceeds Xs xs views T w")
  case False
  then have "mark_step xs views T w (Xs, n) = (Xs, n)"
    by (auto simp: mark_step_def)
  then show ?thesis using assms by simp
next
  case True
  then have st: "mark_step xs views T w (Xs, n) = (Xs[unat (snd w) := negate_z (Xs ! unat (snd w))], n + 1)"
    by (simp add: mark_step_def)
  have "set (Xs[unat (snd w) := negate_z (Xs ! unat (snd w))]) \<subseteq>
        insert (negate_z (Xs ! unat (snd w))) (set Xs)"
    by (rule set_update_subset_insert)
  moreover have "unat (snd w) < length Xs \<Longrightarrow> z3d (negate_z (Xs ! unat (snd w))) \<noteq> 0"
    using assms by (simp add: negate_z_nonzero)
  moreover have "\<not> unat (snd w) < length Xs \<Longrightarrow> Xs[unat (snd w) := negate_z (Xs ! unat (snd w))] = Xs"
    by (simp add: list_update_beyond)
  ultimately show ?thesis
    using assms st by (cases "unat (snd w) < length Xs") auto
qed

lemma mark_step_inv:
  assumes "marker_inv xs views vis Xs" and "w \<in> set vis"
  shows "marker_inv xs views vis (fst (mark_step xs views T w (Xs, n)))"
  using assms mark_step_nonzero[of Xs xs views T w n]
  by (simp add: marker_inv_def mark_step_entry_ok)

lemma loop_eq_fold:
  assumes "\<forall>v \<in> set vs. entry_ok Xs xs views v"
  shows "for_each_visible (mark_body xs views T) vs (Xs, n) = Inr (fold (mark_step xs views T) vs (Xs, n))"
  using assms
proof (induction vs arbitrary: Xs n)
  case Nil
  then show ?case by simp
next
  case (Cons w vs)
  obtain Ys m where st: "mark_step xs views T w (Xs, n) = (Ys, m)"
    by (cases "mark_step xs views T w (Xs, n)")
  have ok: "\<forall>v \<in> set vs. entry_ok Ys xs views v"
    using Cons.prems mark_step_entry_ok[of Xs xs views w _ T n] st by simp
  show ?case
    using Cons.prems Cons.IH[OF ok] st by (simp add: mark_body_step)
qed

lemma valid_negate_z: "z3d X \<noteq> 0 \<Longrightarrow> valid X \<Longrightarrow> \<not> valid (negate_z X)"
  by (simp add: valid_def negate_z_def)

lemma mark_step_commute:
  assumes nz: "\<forall>X \<in> set Xs. z3d X \<noteq> 0"
    and a: "unat (snd a) < length Xs" and b: "unat (snd b) < length Xs"
  shows "mark_step xs views T a (mark_step xs views T b (Xs, n)) =
         mark_step xs views T b (mark_step xs views T a (Xs, n))"
proof (cases "unat (snd a) = unat (snd b)")
  case True
  have "z3d (Xs ! unat (snd b)) \<noteq> 0"
    using nz b by simp
  then show ?thesis
    using True b by (auto simp: mark_step_def valid_negate_z)
next
  case False
  then show ?thesis
    using a b by (auto simp: mark_step_def exceeds_update_other list_update_swap)
qed

lemma fold_mark_step_permuted:
  assumes perm: "mset vis1 = mset vis2" and inv: "marker_inv xs views vis1 Xs"
  shows "fold (mark_step xs views T) vis1 (Xs, n) = fold (mark_step xs views T) vis2 (Xs, n)"
proof (rule fold_permuted_eq[where P = "\<lambda>st :: Point3d list \<times> int. marker_inv xs views vis1 (fst st)"])
  show "mset vis1 = mset vis2" by (rule perm)
  show "marker_inv xs views vis1 (fst (Xs, n))" using inv by simp
next
  fix v and st :: "Point3d list \<times> int"
  assume "v \<in> set vis1" and "marker_inv xs views vis1 (fst st)"
  then show "marker_inv xs views vis1 (fst (mark_step xs views T v st))"
    using mark_step_inv[of xs views vis1 "fst st" v T "snd st"] by simp
next
  fix v w and st :: "Point3d list \<times> int"
  assume v: "v \<in> set vis1" and w: "w \<in> set vis1"
    and i: "marker_inv xs views vis1 (fst st)"
  have "unat (snd v) < length (fst st)" and "unat (snd w) < length (fst st)"
    using v w i by (auto simp: marker_inv_def entry_ok_def in_range_def)
  moreover have "\<forall>X \<in> set (fst st). z3d X \<noteq> 0"
    using i by (simp add: marker_inv_def)
  ultimately show "mark_step xs views T v (mark_step xs views T w st) =
      mark_step xs views T w (mark_step xs views T v st)"
    using mark_step_commute[of "fst st" v w xs views T "snd st"] by simp
qed

lemma markNoisyPoints_permuted:
  assumes perm: "mset vis1 = mset vis2" and inv: "marker_inv xs views vis1 Xs"
  shows "markNoisyPoints Xs xs views vis1 T = markNoisyPoints Xs xs views vis2 T \<and>
         (\<exists>n Xs'. markNoisyPoints Xs xs views vis1 T = Inr (n, Xs'))"
proof -
  have s: "set vis2 = set vis1"
    using perm by (metis mset_eq_setD)
  have ok1: "\<forall>v \<in> set vis1. entry_ok Xs xs views v"
    using inv by (simp add: marker_inv_def)
  then have ok2: "\<forall>v \<in> set vis2. entry_ok Xs xs views v"
    using s by simp
  have "for_each_visible (mark_body xs views T) vis1 (Xs, 0) =
        for_each_visible (mark_body xs views T) vis2 (Xs, 0)"
    using loop_eq_fold[OF ok1] loop_eq_fold[OF ok2] fold_mark_step_permuted[OF perm inv]
    by simp
  then have eq: "markNoisyPoints Xs xs views vis1 T = markNoisyPoints Xs xs views vis2 T"
    by (simp add: markNoisyPoints_def)
  obtain Ys m where "for_each_visible (mark_body xs views T) vis1 (Xs, 0) = Inr (Ys, m)"
    using loop_total[OF ok1] by blast
  then have "\<exists>n Xs'. markNoisyPoints Xs xs views vis1 T = Inr (n, Xs')"
    by (simp add: markNoisyPoints_def)
  with eq show ?thesis by simp
qed

lemma mark_step_quiet:
  assumes "\<not> (valid (Ys ! unat (snd v)) \<and> exceeds Ys xs views T v)"
  shows "mark_step xs views T v (Ys, n) = (Ys, n)"
  using assms by (auto simp: mark_step_def)

lemma fold_mark_step_quiet:
  assumes "\<forall>v \<in> set vs. \<not> (valid (Ys ! unat (snd v)) \<and> exceeds Ys xs views T v)"
  shows "fold (mark_step xs views T) vs (Ys, n) = (Ys, n)"
  using assms by (induction vs) (simp_all add: mark_step_quiet)

lemma quiet_after_mark:
  assumes j: "j < length Xs" and pos: "0 < z3d (Xs ! j)"
    and others: "\<forall>v \<in> set vs. unat (snd v) \<noteq> j \<longrightarrow>
                   \<not> (valid (Xs ! unat (snd v)) \<and> exceeds Xs xs views T v)"
  shows "\<forall>v \<in> set vs. \<not> (valid (Xs[j := negate_z (Xs ! j)] ! unat (snd v)) \<and>
                          exceeds (Xs[j := negate_z (Xs ! j)]) xs views T v)"
proof
  fix v assume v: "v \<in> set vs"
  show "\<not> (valid (Xs[j := negate_z (Xs ! j)] ! unat (snd v)) \<and>
            exceeds (Xs[j := negate_z (Xs ! j)]) xs views T v)"
  proof (cases "unat (snd v) = j")
    case True
    then show ?thesis using j pos by (simp add: valid_def negate_z_def)
  next
    case False
    then show ?thesis using others v by (simp add: exceeds_update_other)
  qed
qed

lemma fold_mark_step_single:
  assumes j: "j < length Xs" and pos: "0 < z3d (Xs ! j)"
    and hit: "\<exists>v \<in> set vs. unat (snd v) = j \<and> exceeds Xs xs views T v"
    and others: "\<forall>v \<in> set vs. unat (snd v) \<noteq> j \<longrightarrow>
                   \<not> (valid (Xs ! unat (snd v)) \<and> exceeds Xs xs views T v)"
  shows "fold (mark_step xs views T) vs (Xs, n) = (Xs[j := negate_z (Xs ! j)], n + 1)"
  using hit others
proof (induction vs)
  case Nil
  then show ?case by simp
next
  case (Cons w vs)
  have val: "valid (Xs ! j)" using pos by (simp add: valid_def)
  show ?case
  proof (cases "unat (snd w) = j \<and> exceeds Xs xs views T w")
    case True
    then have st: "mark_step xs views T w (Xs, n) = (Xs[j := negate_z (Xs ! j)], n + 1)"
      using val by (simp add: mark_step_def)
    have "\<forall>v \<in> set vs. unat (snd v) \<noteq> j \<longrightarrow>
            \<not> (valid (Xs ! unat (snd v)) \<and> exceeds Xs xs views T v)"
      using Cons.prems(2) by simp
    from quiet_after_mark[OF j pos this] show ?thesis
      using st by (simp add: fold_mark_step_quiet)
  next
    case False
    then have "\<not> (valid (Xs ! unat (snd w)) \<and> exceeds Xs xs views T w)"
      using Cons.prems(2) by auto
    then have st: "mark_step xs views T w (Xs, n) = (Xs, n)"
      by (rule mark_step_quiet)
    have "\<exists>v \<in> set vs. unat (snd v) = j \<and> exceeds Xs xs views T v"
      using Cons.prems(1) False by auto
    moreover have "\<forall>v \<in> set vs. unat (snd v) \<noteq> j \<longrightarrow>
            \<not> (valid (Xs ! unat (snd v)) \<and> exceeds Xs xs views T v)"
      using Cons.prems(2) by simp
    ultimately show ?thesis using Cons.IH st by simp
  qed
qed

lemma markNoisyPoints_fold:
  assumes "0 < T" and "\<forall>v \<in> set vis. entry_ok Xs xs views v"
  shows "markNoisyPoints Xs xs views vis T =
         Inr (snd (fold (mark_step xs views T) vis (Xs, 0)), fst (fold (mark_step xs views T) vis (Xs, 0)))"
  using assms by (simp add: markNoisyPoints_def loop_eq_fold split: prod.splits)

section \<open>Whole calls\<close>

lemma markNoisyPoints_marked_from:
  assumes "markNoisyPoints Xs xs views vis T = Inr (n, Xs')"
  shows "marked_from Xs Xs'"
proof (cases "T \<le> 0")
  case True
  then show ?thesis using assms by (simp add: markNoisyPoints_def marked_from_refl)
next
  case False
  then have "for_each_visible (mark_body xs views T) vis (Xs, 0) = Inr (Xs', n)"
    using assms by (auto simp: markNoisyPoints_def split: sum.splits)
  then show ?thesis using loop_marked_from by blast
qed

lemma markNoisyPoints_count_bounds:
  assumes "0 < T" and "markNoisyPoints Xs xs views vis T = Inr (n, Xs')"
  shows "0 \<le> n \<and> n \<le> int (length vis)"
proof -
  have "for_each_visible (mark_body xs views T) vis (Xs, 0) = Inr (Xs', n)"
    using assms by (auto simp: markNoisyPoints_def split: sum.splits)
  from loop_marked_from[OF this] show ?thesis by simp
qed

lemma mark_calls_marked_from:
  assumes "mark_calls Xs calls = Inr Xs'"
  shows "marked_from Xs Xs'"
  using assms
proof (induction Xs calls rule: mark_calls.induct)
  case (1 Xs)
  then show ?case by (simp add: marked_from_refl)
next
  case (2 Xs xs views vis T calls)
  then obtain n Ys where c: "markNoisyPoints Xs xs views vis T = Inr (n, Ys)"
    and r: "mark_calls Ys calls = Inr Xs'"
    by (auto split: sum.splits)
  have "marked_from Ys Xs'"
    using "2.IH" c r by simp
  with markNoisyPoints_marked_from[OF c] show ?case
    by (rule marked_from_trans)
qed

lemma exceeds_same_point:
  assumes "Ys ! unat (snd v) = Xs ! unat (snd v)"
  shows "exceeds Ys xs views T v = exceeds Xs xs views T v"
  using assms by (simp add: exceeds_def entry_dist2_def)

lemma negate_z_zero: "z3d X = 0 \<Longrightarrow> negate_z X = X"
  by (simp add: negate_z_def)

lemma entry_ok_same_point:
  assumes "entry_ok Xs xs views v" and "length Ys = length Xs"
    and "Ys ! unat (snd v) = Xs ! unat (snd v)"
  shows "entry_ok Ys xs views v"
  using assms by (simp add: entry_ok_def in_range_def entry_dist2_def)

lemma marked_from_entry_ok:
  assumes m: "marked_from Xs Ys" and ok: "entry_ok Xs xs views v"
  shows "entry_ok Ys xs views v"
proof -
  let ?j = "unat (snd v)"
  have j: "?j < length Xs" using ok by (simp add: entry_ok_def in_range_def)
  have len: "length Ys = length Xs" using m by (simp add: marked_from_def)
  have d: "Ys ! ?j = Xs ! ?j \<or> (valid (Xs ! ?j) \<and> Ys ! ?j = negate_z (Xs ! ?j))"
    using m j by (simp add: marked_from_def)
  show ?thesis
  proof (cases "Ys ! ?j = Xs ! ?j")
    case True
    then show ?thesis using ok len by (rule entry_ok_same_point[rotated 2])
  next
    case False
    then have v: "valid (Xs ! ?j)" and n: "Ys ! ?j = negate_z (Xs ! ?j)"
      using d by simp_all
    then have "z3d (Xs ! ?j) \<noteq> 0"
      using False by (auto simp: negate_z_zero)
    then have "z3d (Ys ! ?j) < 0"
      using v n by (simp add: valid_def negate_z_def)
    then show ?thesis using ok len by (simp add: entry_ok_def in_range_def)
  qed
qed

lemma mark_step_zero_point:
  assumes j: "j < length Ys" and z: "z3d (Ys ! j) = 0"
    and st: "mark_step xs views T v (Ys, n) = (Ys', n')"
  shows "length Ys' = length Ys \<and> Ys' ! j = Ys ! j \<and> n \<le> n' \<and>
         (unat (snd v) = j \<and> exceeds Ys xs views T v \<longrightarrow> n' = n + 1)"
proof (cases "valid (Ys ! unat (snd v)) \<and> exceeds Ys xs views T v")
  case False
  then have "mark_step xs views T v (Ys, n) = (Ys, n)" by (rule mark_step_quiet)
  moreover have "valid (Ys ! j)" using z by (simp add: valid_def)
  ultimately show ?thesis using st False by auto
next
  case True
  then have "Ys' = Ys[unat (snd v) := negate_z (Ys ! unat (snd v))]" and "n' = n + 1"
    using st by (simp_all add: mark_step_def)
  then show ?thesis
    using j z by (cases "unat (snd v) = j") (simp_all add: negate_z_zero)
qed

lemma fold_mark_step_zero_point:
  assumes "j < length Ys" and "z3d (Ys ! j) = 0"
    and "fold (mark_step xs views T) vs (Ys, n) = (Ys', n')"
  shows "Ys' ! j = Ys ! j \<and>
         n + int (length (filter (\<lambda>v. unat (snd v) = j \<and> exceeds Ys xs views T v) vs)) \<le> n'"
  using assms
proof (induction vs arbitrary: Ys n)
  case Nil
  then show ?case by simp
next
  case (Cons w vs)
  obtain Zs m where st: "mark_step xs views T w (Ys, n) = (Zs, m)"
    by (cases "mark_step xs views T w (Ys, n)")
  from mark_step_zero_point[OF Cons.prems(1,2) st]
  have len: "length Zs = length Ys" and same: "Zs ! j = Ys ! j" and le: "n \<le> m"
    and inc: "unat (snd w) = j \<and> exceeds Ys xs views T w \<longrightarrow> m = n + 1"
    by simp_all
  have rest: "fold (mark_step xs views T) vs (Zs, m) = (Ys', n')"
    using Cons.prems(3) st by simp
  have "j < length Zs" and "z3d (Zs ! j) = 0"
    using Cons.prems(1,2) len same by simp_all
  from Cons.IH[OF this rest]
  have a: "Ys' ! j = Zs ! j"
    and b: "m + int (length (filter (\<lambda>v. unat (snd v) = j \<and> exceeds Zs xs views T v) vs)) \<le> n'"
    by simp_all
  have "filter (\<lambda>v. unat (snd v) = j \<and> exceeds Zs xs views T v) vs =
        filter (\<lambda>v. unat (snd v) = j \<and> exceeds Ys xs views T v) vs"
  proof (rule filter_cong)
    fix v assume "v \<in> set vs"
    show "(unat (snd v) = j \<and> exceeds Zs xs views T v) = (unat (snd v) = j \<and> exceeds Ys xs views T v)"
      using same exceeds_same_point[of Zs v Ys xs views T] by auto
  qed simp
  then show ?case
    using a b same le inc by auto
qed

section \<open>The count and the points that became invalid\<close>

lemma marker_inv_Cons:
  assumes "marker_inv xs views (w # vs) Xs"
  shows "marker_inv xs views vs Xs" and "entry_ok Xs xs views w"
  using assms by (simp_all add: marker_inv_def)

lemma fold_mark_step_marked_from:
  assumes ok: "\<forall>v \<in> set vs. entry_ok Xs xs views v"
    and f: "fold (mark_step xs views T) vs (Xs, n) = (Xs', n')"
  shows "marked_from Xs Xs'"
proof -
  have "for_each_visible (mark_body xs views T) vs (Xs, n) = Inr (Xs', n')"
    using loop_eq_fold[OF ok] f by simp
  then show ?thesis using loop_marked_from by blast
qed

lemma fold_mark_step_count:
  assumes "marker_inv xs views vs Xs"
    and "fold (mark_step xs views T) vs (Xs, n) = (Xs', n')"
  shows "n' = n + int (card {i. i < length Xs \<and> Xs' ! i \<noteq> Xs ! i})"
  using assms
proof (induction vs arbitrary: Xs n)
  case Nil
  then show ?case by simp
next
  case (Cons w vs)
  obtain Ys m where st: "mark_step xs views T w (Xs, n) = (Ys, m)"
    by (cases "mark_step xs views T w (Xs, n)")
  have inv': "marker_inv xs views (w # vs) Ys"
    using mark_step_inv[OF Cons.prems(1), of w T n] st by simp
  then have inv: "marker_inv xs views vs Ys"
    by (rule marker_inv_Cons)
  have rest: "fold (mark_step xs views T) vs (Ys, m) = (Xs', n')"
    using Cons.prems(2) st by simp
  have IH: "n' = m + int (card {i. i < length Ys \<and> Xs' ! i \<noteq> Ys ! i})"
    by (rule Cons.IH[OF inv rest])
  have mf: "marked_from Ys Xs'"
    using inv rest by (auto simp: marker_inv_def intro: fold_mark_step_marked_from)
  show ?case
  proof (cases "valid (Xs ! unat (snd w)) \<and> exceeds Xs xs views T w")
    case False
    then have "Ys = Xs" and "m = n"
      using st by (auto simp: mark_step_def)
    then show ?thesis using IH by simp
  next
    case True
    let ?j = "unat (snd w)"
    have j: "?j < length Xs"
      using Cons.prems(1) by (simp add: marker_inv_def entry_ok_def in_range_def)
    have Ys: "Ys = Xs[?j := negate_z (Xs ! ?j)]" and m: "m = n + 1"
      using st True by (simp_all add: mark_step_def)
    have nz: "z3d (Xs ! ?j) \<noteq> 0"
      using Cons.prems(1) j by (simp add: marker_inv_def)
    have len: "length Ys = length Xs" using Ys by simp
    have Yj: "Ys ! ?j = negate_z (Xs ! ?j)" using Ys j by simp
    have "\<not> valid (Ys ! ?j)"
      using True nz Yj by (simp add: valid_negate_z)
    then have same: "Xs' ! ?j = Ys ! ?j"
      using mf j len by (auto simp: marked_from_def)
    have ne: "negate_z (Xs ! ?j) \<noteq> Xs ! ?j"
    proof
      assume "negate_z (Xs ! ?j) = Xs ! ?j"
      then have "z3d (negate_z (Xs ! ?j)) = z3d (Xs ! ?j)" by simp
      then show False using nz by (simp add: negate_z_def)
    qed
    have sets: "{i. i < length Xs \<and> Xs' ! i \<noteq> Xs ! i} =
                insert ?j {i. i < length Ys \<and> Xs' ! i \<noteq> Ys ! i}"
    proof (rule set_eqI)
      fix i
      show "i \<in> {i. i < length Xs \<and> Xs' ! i \<noteq> Xs ! i} \<longleftrightarrow>
            i \<in> insert ?j {i. i < length Ys \<and> Xs' ! i \<noteq> Ys ! i}"
      proof (cases "i = ?j")
        case True
        then show ?thesis using j same Yj ne by simp
      next
        case False
        then have "Ys ! i = Xs ! i" using Ys by simp
        then show ?thesis using False len by simp
      qed
    qed
    have notin: "?j \<notin> {i. i < length Ys \<and> Xs' ! i \<noteq> Ys ! i}"
      using same by simp
    have fin: "finite {i. i < length Ys \<and> Xs' ! i \<noteq> Ys ! i}"
      by simp
    have "card {i. i < length Xs \<and> Xs' ! i \<noteq> Xs ! i} =
          Suc (card {i. i < length Ys \<and> Xs' ! i \<noteq> Ys ! i})"
      unfolding sets using fin notin by (rule card_insert_disjoint)
    then show ?thesis using IH m by simp
  qed
qed

lemma changed_iff_invalidated:
  assumes m: "marked_from Xs Xs'" and nz: "\<forall>X \<in> set Xs. z3d X \<noteq> 0"
  shows "{i. i < length Xs \<and> Xs' ! i \<noteq> Xs ! i} =
         {i. i < length Xs \<and> valid (Xs ! i) \<and> \<not> valid (Xs' ! i)}"
proof (rule set_eqI)
  fix i
  show "i \<in> {i. i < length Xs \<and> Xs' ! i \<noteq> Xs ! i} \<longleftrightarrow>
        i \<in> {i. i < length Xs \<and> valid (Xs ! i) \<and> \<not> valid (Xs' ! i)}"
  proof (cases "i < length Xs")
    case False
    then show ?thesis by simp
  next
    case True
    then have d: "Xs' ! i = Xs ! i \<or> (valid (Xs ! i) \<and> Xs' ! i = negate_z (Xs ! i))"
      using m by (simp add: marked_from_def)
    have z: "z3d (Xs ! i) \<noteq> 0" using nz True by simp
    show ?thesis
      using d True valid_negate_z[OF z] by auto
  qed
qed

lemma markNoisyPoints_count:
  assumes T: "0 < T" and ok: "\<forall>v \<in> set vis. entry_ok Xs xs views v"
    and nz: "\<forall>X \<in> set Xs. z3d X \<noteq> 0"
    and c: "markNoisyPoints Xs xs views vis T = Inr (n, Xs')"
  shows "n = int (card {i. i < length Xs \<and> valid (Xs ! i) \<and> \<not> valid (Xs' ! i)})"
proof -
  have inv: "marker_inv xs views vis Xs"
    using ok nz by (simp add: marker_inv_def)
  have f: "fold (mark_step xs views T) vis (Xs, 0) = (Xs', n)"
    using markNoisyPoints_fold[OF T ok] c by (simp add: prod_eq_iff)
  have "n = int (card {i. i < length Xs \<and> Xs' ! i \<noteq> Xs ! i})"
    using fold_mark_step_count[OF inv f] by simp
  then show ?thesis
    using changed_iff_invalidated[OF markNoisyPoints_marked_from[OF c] nz] by simp
qed

section \<open>The builders and the functors\<close>

lemma for_each_visible_append:
  assumes "\<And>v p. v \<in> set vis \<Longrightarrow> body v p = Inr (p @ [g v])"
  shows "for_each_visible body vis problem = Inr (problem @ map g vis)"
  using assms by (induction vis arbitrary: problem) simp_all

lemma addCostFunc11DOF_blocks:
  assumes "\<forall>v \<in> set vis. in_range Xs xs views v"
  shows "addCostFunc11DOF problem Xs xs views vis lw = Inr (True, problem @ map (block11DOF xs lw) vis)"
proof -
  have "for_each_visible (body11DOF Xs xs views lw) vis problem = Inr (problem @ map (block11DOF xs lw) vis)"
    using assms by (intro for_each_visible_append) (simp add: body11DOF_def block11DOF_def in_range_def Let_def)
  then show ?thesis by (simp add: addCostFunc11DOF_def)
qed

lemma addCostFunc7DOF_blocks:
  assumes "\<forall>v \<in> set vis. in_range Xs xs views v"
  shows "addCostFunc7DOF problem Xs xs views vis lw = Inr (True, problem @ map (block7DOF xs views lw) vis)"
proof -
  have "for_each_visible (body7DOF Xs xs views lw) vis problem = Inr (problem @ map (block7DOF xs views lw) vis)"
    using assms by (intro for_each_visible_append) (simp add: body7DOF_def block7DOF_def in_range_def Let_def)
  then show ?thesis by (simp add: addCostFunc7DOF_def)
qed

lemma addCostFunc6DOF_blocks:
  assumes "\<forall>v \<in> set vis. in_range Xs xs views v"
  shows "addCostFunc6DOF problem Xs xs views vis lw = Inr (True, problem @ map (block6DOF xs views lw) vis)"
proof -
  have "for_each_visible (body6DOF Xs xs views lw) vis problem = Inr (problem @ map (block6DOF xs views lw) vis)"
    using assms by (intro for_each_visible_append) (simp add: body6DOF_def block6DOF_def in_range_def Let_def)
  then show ?thesis by (simp add: addCostFunc6DOF_def)
qed

lemma call11DOF_project_full:
  "call11DOF r camera point =
     (case project_full camera point of
        None \<Rightarrow> Inl NonFinite
      | Some p \<Rightarrow> Inr (x2d (x11 r) - x2d p, y2d (x11 r) - y2d p))"
  by (simp add: call11DOF_def project_full_def Let_def power2_eq_square algebra_simps)

lemma call7DOF_cong:
  assumes "\<forall>k < 7. camera' ! k = camera ! k"
  shows "call7DOF r camera' point = call7DOF r camera point"
proof -
  have e: "camera' ! 0 = camera ! 0" "camera' ! 1 = camera ! 1" "camera' ! 2 = camera ! 2"
    "camera' ! 3 = camera ! 3" "camera' ! 4 = camera ! 4" "camera' ! 5 = camera ! 5"
    "camera' ! 6 = camera ! 6"
    using assms by simp_all
  have "AngleAxisRotatePoint camera' point = AngleAxisRotatePoint camera point"
    using e by (simp add: AngleAxisRotatePoint_def)
  then show ?thesis
    using e by (simp add: call7DOF_def)
qed

section \<open>The concrete scenes, evaluated\<close>

lemma Rodrigues_zero: "Rodrigues (0, 0, 0) = ((1, 0, 0), (0, 1, 0), (0, 0, 1))"
  by (simp add: Rodrigues_def DBL_EPSILON_def)

lemma AngleAxisRotatePoint_zero:
  assumes "angle_axis ! 0 = 0" and "angle_axis ! 1 = 0" and "angle_axis ! 2 = 0"
  shows "AngleAxisRotatePoint angle_axis p = p"
  using assms by (simp add: AngleAxisRotatePoint_def DBL_EPSILON_def)

lemma scene_keys:
  "unat (getImIdx (genKey 0 0)) = 0" "unat (getPtIdx (genKey 0 0)) = 0"
  "unat (getImIdx (genKey 0 1)) = 0" "unat (getPtIdx (genKey 0 1)) = 1"
  by (simp_all add: unat_getImIdx unat_getPtIdx unat_genKey)

lemma scene_dist2:
  "entry_dist2 scene_Xs scene_xs [camera_origin] (genKey 0 0, 0) = Inr 9"
  "entry_dist2 scene_Xs scene_xs [camera_origin] (genKey 0 1, 1) = Inr 0"
  by (simp_all add: entry_dist2_def scene_keys scene_Xs_def scene_xs_def camera_origin_def
      reproj_dist2_def Rodrigues_zero mul_Matx33d_def add_Point3d_def add_Point2d_def
      sub_Point2d_def scale_Point2d_def)

lemma flat_dist2:
  "entry_dist2 flat_Xs flat_xs [camera_back] (genKey 0 0, 0) = Inr 9"
  "entry_dist2 flat_Xs flat_xs [camera_back] (genKey 0 1, 0) = Inr 9"
  by (simp_all add: entry_dist2_def scene_keys flat_Xs_def flat_xs_def camera_back_def
      reproj_dist2_def Rodrigues_zero mul_Matx33d_def add_Point3d_def add_Point2d_def
      sub_Point2d_def scale_Point2d_def)

lemma scene_in_range: "\<forall>v \<in> set scene_vis. in_range scene_Xs scene_xs [camera_origin] v"
  by (simp add: scene_vis_def in_range_def scene_keys scene_Xs_def scene_xs_def)

lemma scene_entry_ok: "\<forall>v \<in> set scene_vis. entry_ok scene_Xs scene_xs [camera_origin] v"
  using scene_in_range by (simp add: scene_vis_def entry_ok_def scene_dist2)

lemma flat_entry_ok: "\<forall>v \<in> set flat_vis. entry_ok flat_Xs flat_xs [camera_back] v"
  by (simp add: flat_vis_def entry_ok_def in_range_def scene_keys flat_dist2)
     (simp add: flat_Xs_def flat_xs_def)

lemma scene_entry_ok_each:
  "entry_ok scene_Xs scene_xs [camera_origin] (genKey 0 0, 0)"
  "entry_ok scene_Xs scene_xs [camera_origin] (genKey 0 1, 1)"
  using scene_entry_ok by (simp_all add: scene_vis_def)

lemma flat_entry_ok_each:
  "entry_ok flat_Xs flat_xs [camera_back] (genKey 0 0, 0)"
  "entry_ok flat_Xs flat_xs [camera_back] (genKey 0 1, 0)"
  using flat_entry_ok by (simp_all add: flat_vis_def)

lemma scene_nonzero: "\<forall>X \<in> set scene_Xs. z3d X \<noteq> 0"
  by (simp add: scene_Xs_def)

lemma scene_mark_body:
  "mark_body scene_xs [camera_origin] 4 (genKey 0 0, 0) (scene_Xs, n) = Inr (scene_marked, n + 1)"
  "mark_body scene_xs [camera_origin] 4 (genKey 0 1, 1) (scene_Xs, n) = Inr (scene_Xs, n)"
  "mark_body scene_xs [camera_origin] 4 (genKey 0 0, 0) (scene_marked, n) = Inr (scene_marked, n)"
  "mark_body scene_xs [camera_origin] 4 (genKey 0 1, 1) (scene_marked, n) = Inr (scene_marked, n)"
  using scene_dist2
  by (simp_all add: mark_body_def entry_dist2_def scene_keys Let_def
      scene_Xs_def scene_marked_def scene_xs_def)

lemma scene_calls:
  "markNoisyPoints scene_Xs scene_xs [camera_origin] scene_vis 4 = Inr (1, scene_marked)"
  "markNoisyPoints scene_marked scene_xs [camera_origin] scene_vis 4 = Inr (0, scene_marked)"
  by (simp_all add: markNoisyPoints_def scene_vis_def scene_mark_body)

lemma flat_mark_body:
  "mark_body flat_xs [camera_back] 4 (genKey 0 0, 0) (flat_Xs, n) = Inr (flat_Xs, n + 1)"
  "mark_body flat_xs [camera_back] 4 (genKey 0 1, 0) (flat_Xs, n) = Inr (flat_Xs, n + 1)"
  using flat_dist2
  by (simp_all add: mark_body_def entry_dist2_def scene_keys Let_def flat_Xs_def flat_xs_def)

lemma flat_calls:
  "markNoisyPoints flat_Xs flat_xs [camera_back] [(genKey 0 0, 0)] 4 = Inr (1, flat_Xs)"
  "markNoisyPoints flat_Xs flat_xs [camera_back] flat_vis 4 = Inr (2, flat_Xs)"
  by (simp_all add: markNoisyPoints_def flat_vis_def flat_mark_body)

section \<open>The claims about the marker\<close>

text \<open>
  Claim C2, as stated: a visible point whose squared reprojection error exceeds \<open>T > 0\<close> is
  flipped by one call, which returns 1, and a second call returns 0. It fails for a valid
  point whose third coordinate is exactly 0: the call returns 1 but the points it leaves
  are the points it was given, the point is still valid, and the call on them does not
  return 0.
\<close>

theorem zero_coordinate_not_flipped:
  "0 < (4::real) \<and> valid (flat_Xs ! 0) \<and>
   exceeds flat_Xs flat_xs [camera_back] 4 (genKey 0 0, 0) \<and>
   markNoisyPoints flat_Xs flat_xs [camera_back] [(genKey 0 0, 0)] 4 = Inr (1, flat_Xs) \<and>
   markNoisyPoints flat_Xs flat_xs [camera_back] [(genKey 0 0, 0)] 4 \<noteq> Inr (0, flat_Xs)"
  by (simp add: flat_calls exceeds_def flat_dist2) (simp add: valid_def flat_Xs_def)

text \<open>
  Claim C2, amended: let point \<open>j\<close> have a strictly positive third coordinate and an
  observation whose squared reprojection error exceeds \<open>T > 0\<close>, all entries being
  processable and no entry of another point marking that point. Then one call to
  \<open>markNoisyPoints\<close> negates the third coordinate of point \<open>j\<close>, changes nothing else and
  returns 1, and a second call on the resulting points returns 0 and changes nothing.
\<close>

theorem marks_once:
  assumes T: "0 < T"
    and ok: "\<forall>v \<in> set vis. entry_ok Xs xs views v"
    and j: "j < length Xs" and pos: "0 < z3d (Xs ! j)"
    and hit: "\<exists>v \<in> set vis. unat (snd v) = j \<and> exceeds Xs xs views T v"
    and others: "\<forall>v \<in> set vis. unat (snd v) \<noteq> j \<longrightarrow>
                   \<not> (valid (Xs ! unat (snd v)) \<and> exceeds Xs xs views T v)"
  shows "markNoisyPoints Xs xs views vis T = Inr (1, Xs[j := (Xs ! j)\<lparr>z3d := - z3d (Xs ! j)\<rparr>]) \<and>
         markNoisyPoints (Xs[j := (Xs ! j)\<lparr>z3d := - z3d (Xs ! j)\<rparr>]) xs views vis T =
           Inr (0, Xs[j := (Xs ! j)\<lparr>z3d := - z3d (Xs ! j)\<rparr>])"
proof -
  let ?Ys = "Xs[j := negate_z (Xs ! j)]"
  have neg: "(Xs ! j)\<lparr>z3d := - z3d (Xs ! j)\<rparr> = negate_z (Xs ! j)"
    by (simp add: negate_z_def)
  have val: "valid (Xs ! j)" using pos by (simp add: valid_def)
  have first: "markNoisyPoints Xs xs views vis T = Inr (1, ?Ys)"
    using markNoisyPoints_fold[OF T ok] fold_mark_step_single[OF j pos hit others, of 0]
    by simp
  have ok': "\<forall>v \<in> set vis. entry_ok ?Ys xs views v"
    using ok j val by (simp add: entry_ok_update)
  have quiet: "\<forall>v \<in> set vis. \<not> (valid (?Ys ! unat (snd v)) \<and> exceeds ?Ys xs views T v)"
    by (rule quiet_after_mark[OF j pos others])
  have second: "markNoisyPoints ?Ys xs views vis T = Inr (0, ?Ys)"
    using markNoisyPoints_fold[OF T ok'] fold_mark_step_quiet[OF quiet, of 0]
    by simp
  show ?thesis using first second neg by simp
qed

theorem marks_once_witness:
  "0 < (4::real) \<and>
   entry_ok scene_Xs scene_xs [camera_origin] (genKey 0 0, 0) \<and>
   entry_ok scene_Xs scene_xs [camera_origin] (genKey 0 1, 1) \<and>
   (0::nat) < length scene_Xs \<and> 0 < z3d (scene_Xs ! 0) \<and>
   exceeds scene_Xs scene_xs [camera_origin] 4 (genKey 0 0, 0) \<and>
   \<not> exceeds scene_Xs scene_xs [camera_origin] 4 (genKey 0 1, 1) \<and>
   markNoisyPoints scene_Xs scene_xs [camera_origin] scene_vis 4 = Inr (1, scene_marked) \<and>
   markNoisyPoints scene_marked scene_xs [camera_origin] scene_vis 4 = Inr (0, scene_marked)"
proof -
  have h1: "0 < (4::real)" by simp
  have h3: "(0::nat) < length scene_Xs" by (simp add: scene_Xs_def)
  have h4: "0 < z3d (scene_Xs ! 0)" by (simp add: scene_Xs_def)
  have e0: "exceeds scene_Xs scene_xs [camera_origin] 4 (genKey 0 0, 0)"
    and e1: "\<not> exceeds scene_Xs scene_xs [camera_origin] 4 (genKey 0 1, 1)"
    by (simp_all add: exceeds_def scene_dist2)
  have h5: "\<exists>v \<in> set scene_vis. unat (snd v) = 0 \<and> exceeds scene_Xs scene_xs [camera_origin] 4 v"
    using e0 by (simp add: scene_vis_def)
  have h6: "\<forall>v \<in> set scene_vis. unat (snd v) \<noteq> 0 \<longrightarrow>
       \<not> (valid (scene_Xs ! unat (snd v)) \<and> exceeds scene_Xs scene_xs [camera_origin] 4 v)"
    using e1 by (simp add: scene_vis_def)
  have "scene_Xs[0 := (scene_Xs ! 0)\<lparr>z3d := - z3d (scene_Xs ! 0)\<rparr>] = scene_marked"
    by (simp add: scene_Xs_def scene_marked_def)
  then have "markNoisyPoints scene_Xs scene_xs [camera_origin] scene_vis 4 = Inr (1, scene_marked) \<and>
     markNoisyPoints scene_marked scene_xs [camera_origin] scene_vis 4 = Inr (0, scene_marked)"
    using marks_once [OF h1 scene_entry_ok h3 h4 h5 h6] by simp
  then show ?thesis
    using h1 scene_entry_ok_each h3 h4 e0 e1 by blast
qed

text \<open>
  Claim C3, as stated: with \<open>T > 0\<close> the value returned is the count of newly marked points.
  It fails when a point has third coordinate exactly 0: in the scene of one such point seen
  by two keypoints, both three pixels off, the call returns 2, although there is only one
  point, and that point is returned unchanged and still valid, so no point is newly marked.
\<close>

theorem count_exceeds_points:
  "0 < (4::real) \<and>
   markNoisyPoints flat_Xs flat_xs [camera_back] flat_vis 4 = Inr (2, flat_Xs) \<and>
   length flat_Xs = 1 \<and> valid (flat_Xs ! 0) \<and> int (length flat_Xs) < 2"
  by (simp add: flat_calls) (simp add: flat_Xs_def valid_def)

text \<open>
  Claim C3, amended: with a threshold \<open>T \<le> 0\<close>, \<open>markNoisyPoints\<close> returns \<open>-1\<close> and leaves
  every point as it was. With \<open>T > 0\<close> every count it returns is non-negative (and at most
  the number of entries); it does return one whenever every entry can be processed; and
  when in addition no third coordinate is zero, the count is the number of newly marked
  points, those that were valid before the call and are invalid after it.
\<close>

theorem disabled_or_count:
  "(T \<le> 0 \<longrightarrow> markNoisyPoints Xs xs views vis T = Inr (- 1, Xs)) \<and>
   (0 < T \<longrightarrow>
      (\<forall>n Xs'. markNoisyPoints Xs xs views vis T = Inr (n, Xs') \<longrightarrow> 0 \<le> n \<and> n \<le> int (length vis)) \<and>
      ((\<forall>v \<in> set vis. entry_ok Xs xs views v) \<longrightarrow>
         (\<exists>n Xs'. markNoisyPoints Xs xs views vis T = Inr (n, Xs') \<and> 0 \<le> n)) \<and>
      ((\<forall>v \<in> set vis. entry_ok Xs xs views v) \<and> (\<forall>X \<in> set Xs. z3d X \<noteq> 0) \<longrightarrow>
         (\<forall>n Xs'. markNoisyPoints Xs xs views vis T = Inr (n, Xs') \<longrightarrow>
            n = int (card {i. i < length Xs \<and> valid (Xs ! i) \<and> \<not> valid (Xs' ! i)}))))"
proof (intro conjI impI allI)
  assume "T \<le> 0"
  then show "markNoisyPoints Xs xs views vis T = Inr (- 1, Xs)"
    by (simp add: markNoisyPoints_def)
next
  fix n Xs' assume "0 < T" and "markNoisyPoints Xs xs views vis T = Inr (n, Xs')"
  then show "0 \<le> n" and "n \<le> int (length vis)"
    using markNoisyPoints_count_bounds by blast+
next
  assume T: "0 < T" and ok: "\<forall>v \<in> set vis. entry_ok Xs xs views v"
  obtain Ys m where l: "for_each_visible (mark_body xs views T) vis (Xs, 0) = Inr (Ys, m)"
    using loop_total[OF ok] by blast
  then have "markNoisyPoints Xs xs views vis T = Inr (m, Ys)"
    using T by (simp add: markNoisyPoints_def)
  then show "\<exists>n Xs'. markNoisyPoints Xs xs views vis T = Inr (n, Xs') \<and> 0 \<le> n"
    using markNoisyPoints_count_bounds[OF T] by blast
next
  fix n Xs'
  assume T: "0 < T"
    and h: "(\<forall>v \<in> set vis. entry_ok Xs xs views v) \<and> (\<forall>X \<in> set Xs. z3d X \<noteq> 0)"
    and c: "markNoisyPoints Xs xs views vis T = Inr (n, Xs')"
  from h have ok: "\<forall>v \<in> set vis. entry_ok Xs xs views v" and nz: "\<forall>X \<in> set Xs. z3d X \<noteq> 0"
    by simp_all
  show "n = int (card {i. i < length Xs \<and> valid (Xs ! i) \<and> \<not> valid (Xs' ! i)})"
    by (rule markNoisyPoints_count[OF T ok nz c])
qed

theorem disabled_or_count_witness:
  "(0::real) \<le> 0 \<and> markNoisyPoints scene_Xs scene_xs [camera_origin] scene_vis 0 = Inr (- 1, scene_Xs) \<and>
   0 < (4::real) \<and>
   entry_ok scene_Xs scene_xs [camera_origin] (genKey 0 0, 0) \<and>
   entry_ok scene_Xs scene_xs [camera_origin] (genKey 0 1, 1) \<and>
   z3d (scene_Xs ! 0) \<noteq> 0 \<and> z3d (scene_Xs ! 1) \<noteq> 0 \<and>
   markNoisyPoints scene_Xs scene_xs [camera_origin] scene_vis 4 = Inr (1, scene_marked) \<and>
   (0::int) \<le> 1 \<and> (1::int) \<le> int (length scene_vis) \<and>
   (\<exists>n Xs'. markNoisyPoints scene_Xs scene_xs [camera_origin] scene_vis 4 = Inr (n, Xs') \<and> 0 \<le> n) \<and>
   1 = int (card {i. i < length scene_Xs \<and> valid (scene_Xs ! i) \<and> \<not> valid (scene_marked ! i)})"
proof -
  have a: "markNoisyPoints scene_Xs scene_xs [camera_origin] scene_vis 0 = Inr (- 1, scene_Xs)"
    using disabled_or_count [where T = 0 and Xs = scene_Xs and xs = scene_xs
        and views = "[camera_origin]" and vis = scene_vis]
    by simp
  have four: "0 < (4::real)" by simp
  have nz: "z3d (scene_Xs ! 0) \<noteq> 0 \<and> z3d (scene_Xs ! 1) \<noteq> 0" by (simp add: scene_Xs_def)
  note d = disabled_or_count [where T = 4 and Xs = scene_Xs and xs = scene_xs
        and views = "[camera_origin]" and vis = scene_vis]
  have b: "(0::int) \<le> 1 \<and> (1::int) \<le> int (length scene_vis)"
    using d four scene_calls(1) by blast
  have c: "\<exists>n Xs'. markNoisyPoints scene_Xs scene_xs [camera_origin] scene_vis 4 = Inr (n, Xs') \<and> 0 \<le> n"
    using d four scene_entry_ok by blast
  have e: "1 = int (card {i. i < length scene_Xs \<and> valid (scene_Xs ! i) \<and> \<not> valid (scene_marked ! i)})"
    using d four scene_entry_ok scene_nonzero scene_calls(1) by blast
  show ?thesis
    using a b c e nz scene_entry_ok_each scene_calls(1) by simp
qed

text \<open>
  Claim C4. An iteration that finds its point invalid changes neither the points nor the
  count, whatever the observation and the camera are. Over any sequence of calls the length
  of the point vector is kept, a point that was invalid is returned unchanged, and a point
  that is valid afterwards was valid before: the only change of validity is from valid to
  invalid.
\<close>

theorem one_way:
  "(unat (snd v) < length Xs \<and> z3d (Xs ! unat (snd v)) < 0 \<longrightarrow>
      mark_body xs views T v (Xs, n) = Inr (Xs, n)) \<and>
   (mark_calls Xs calls = Inr Xs' \<longrightarrow>
      length Xs' = length Xs \<and>
      (\<forall>i < length Xs. (z3d (Xs ! i) < 0 \<longrightarrow> Xs' ! i = Xs ! i) \<and>
                        (valid (Xs' ! i) \<longrightarrow> valid (Xs ! i))))"
proof (intro conjI impI allI)
  assume "unat (snd v) < length Xs \<and> z3d (Xs ! unat (snd v)) < 0"
  then show "mark_body xs views T v (Xs, n) = Inr (Xs, n)"
    by (simp add: mark_body_skip)
next
  assume "mark_calls Xs calls = Inr Xs'"
  then have m: "marked_from Xs Xs'" by (rule mark_calls_marked_from)
  then show "length Xs' = length Xs" by (simp add: marked_from_def)
  fix i assume i: "i < length Xs"
  then have d: "Xs' ! i = Xs ! i \<or> (valid (Xs ! i) \<and> Xs' ! i = negate_z (Xs ! i))"
    using m by (simp add: marked_from_def)
  { assume "z3d (Xs ! i) < 0"
    then show "Xs' ! i = Xs ! i" using d by (auto simp: valid_def) }
  { assume "valid (Xs' ! i)"
    then show "valid (Xs ! i)" using d by auto }
qed

theorem one_way_witness:
  "unat (snd (genKey 0 0, 0 :: uint)) < length scene_marked \<and>
   z3d (scene_marked ! unat (snd (genKey 0 0, 0 :: uint))) < 0 \<and>
   mark_body scene_xs [camera_origin] 4 (genKey 0 0, 0) (scene_marked, 0) = Inr (scene_marked, 0) \<and>
   mark_calls scene_Xs [(scene_xs, [camera_origin], scene_vis, 4), (scene_xs, [camera_origin], scene_vis, 4)]
     = Inr scene_marked \<and>
   length scene_marked = length scene_Xs \<and>
   valid (scene_marked ! 1) \<and> valid (scene_Xs ! 1)"
proof -
  have a: "unat (snd (genKey 0 0, 0 :: uint)) < length scene_marked \<and>
           z3d (scene_marked ! unat (snd (genKey 0 0, 0 :: uint))) < 0"
    by (simp add: scene_marked_def)
  have b: "mark_calls scene_Xs [(scene_xs, [camera_origin], scene_vis, 4),
             (scene_xs, [camera_origin], scene_vis, 4)] = Inr scene_marked"
    by (simp add: scene_calls)
  have c: "mark_body scene_xs [camera_origin] 4 (genKey 0 0, 0) (scene_marked, 0) = Inr (scene_marked, 0)"
    using a one_way [where v = "(genKey 0 0, 0)" and Xs = scene_marked and xs = scene_xs
        and views = "[camera_origin]" and T = 4 and n = 0]
    by blast
  have d: "length scene_marked = length scene_Xs \<and>
     (\<forall>i < length scene_Xs. (z3d (scene_Xs ! i) < 0 \<longrightarrow> scene_marked ! i = scene_Xs ! i) \<and>
                          (valid (scene_marked ! i) \<longrightarrow> valid (scene_Xs ! i)))"
    using b one_way [where Xs = scene_Xs and Xs' = scene_marked
        and calls = "[(scene_xs, [camera_origin], scene_vis, 4), (scene_xs, [camera_origin], scene_vis, 4)]"]
    by blast
  have v: "valid (scene_marked ! 1)" by (simp add: scene_marked_def valid_def)
  have one: "(1::nat) < length scene_Xs" by (simp add: scene_Xs_def)
  have v': "valid (scene_Xs ! 1)" using d v one by blast
  show ?thesis
    using a b c d v v' by blast
qed

text \<open>
  Claim C5. For two enumerations of the same visibility map whose entries can all be
  processed, no third coordinate being zero, \<open>markNoisyPoints\<close> returns the same count and
  the same points, and each of the three builders registers the same multiset of residual
  blocks.
\<close>

theorem order_independent:
  assumes perm: "mset vis1 = mset vis2"
    and ok: "\<forall>v \<in> set vis1. entry_ok Xs xs views v"
    and nz: "\<forall>X \<in> set Xs. z3d X \<noteq> 0"
  shows "markNoisyPoints Xs xs views vis1 T = markNoisyPoints Xs xs views vis2 T \<and>
         (\<exists>n Xs'. markNoisyPoints Xs xs views vis1 T = Inr (n, Xs')) \<and>
         (\<exists>bs1 bs2. addCostFunc11DOF problem Xs xs views vis1 lw = Inr (True, problem @ bs1) \<and>
                    addCostFunc11DOF problem Xs xs views vis2 lw = Inr (True, problem @ bs2) \<and>
                    mset bs1 = mset bs2) \<and>
         (\<exists>bs1 bs2. addCostFunc7DOF problem Xs xs views vis1 lw = Inr (True, problem @ bs1) \<and>
                    addCostFunc7DOF problem Xs xs views vis2 lw = Inr (True, problem @ bs2) \<and>
                    mset bs1 = mset bs2) \<and>
         (\<exists>bs1 bs2. addCostFunc6DOF problem Xs xs views vis1 lw = Inr (True, problem @ bs1) \<and>
                    addCostFunc6DOF problem Xs xs views vis2 lw = Inr (True, problem @ bs2) \<and>
                    mset bs1 = mset bs2)"
proof -
  have inv: "marker_inv xs views vis1 Xs"
    using ok nz by (simp add: marker_inv_def)
  have s: "set vis2 = set vis1"
    using perm by (metis mset_eq_setD)
  have r1: "\<forall>v \<in> set vis1. in_range Xs xs views v"
    using ok by (simp add: entry_ok_def)
  then have r2: "\<forall>v \<in> set vis2. in_range Xs xs views v"
    using s by simp
  have m: "\<And>g :: uint \<times> uint \<Rightarrow> ResidualBlock. mset (map g vis1) = mset (map g vis2)"
    using perm by (metis mset_map)
  have a: "\<exists>bs1 bs2. addCostFunc11DOF problem Xs xs views vis1 lw = Inr (True, problem @ bs1) \<and>
                    addCostFunc11DOF problem Xs xs views vis2 lw = Inr (True, problem @ bs2) \<and>
                    mset bs1 = mset bs2"
    using addCostFunc11DOF_blocks[OF r1] addCostFunc11DOF_blocks[OF r2] m by blast
  have b: "\<exists>bs1 bs2. addCostFunc7DOF problem Xs xs views vis1 lw = Inr (True, problem @ bs1) \<and>
                    addCostFunc7DOF problem Xs xs views vis2 lw = Inr (True, problem @ bs2) \<and>
                    mset bs1 = mset bs2"
    using addCostFunc7DOF_blocks[OF r1] addCostFunc7DOF_blocks[OF r2] m by blast
  have c: "\<exists>bs1 bs2. addCostFunc6DOF problem Xs xs views vis1 lw = Inr (True, problem @ bs1) \<and>
                    addCostFunc6DOF problem Xs xs views vis2 lw = Inr (True, problem @ bs2) \<and>
                    mset bs1 = mset bs2"
    using addCostFunc6DOF_blocks[OF r1] addCostFunc6DOF_blocks[OF r2] m by blast
  show ?thesis
    using markNoisyPoints_permuted[OF perm inv] a b c by blast
qed

theorem order_independent_witness:
  "mset scene_vis = mset (rev scene_vis) \<and>
   entry_ok scene_Xs scene_xs [camera_origin] (genKey 0 0, 0) \<and>
   entry_ok scene_Xs scene_xs [camera_origin] (genKey 0 1, 1) \<and>
   z3d (scene_Xs ! 0) \<noteq> 0 \<and> z3d (scene_Xs ! 1) \<noteq> 0 \<and>
   markNoisyPoints scene_Xs scene_xs [camera_origin] scene_vis 4 =
     markNoisyPoints scene_Xs scene_xs [camera_origin] (rev scene_vis) 4 \<and>
   markNoisyPoints scene_Xs scene_xs [camera_origin] (rev scene_vis) 4 = Inr (1, scene_marked) \<and>
   (\<exists>bs1 bs2. addCostFunc11DOF [] scene_Xs scene_xs [camera_origin] scene_vis 4 = Inr (True, [] @ bs1) \<and>
              addCostFunc11DOF [] scene_Xs scene_xs [camera_origin] (rev scene_vis) 4 = Inr (True, [] @ bs2) \<and>
              mset bs1 = mset bs2)"
proof -
  have h1: "mset scene_vis = mset (rev scene_vis)" by simp
  have nz: "z3d (scene_Xs ! 0) \<noteq> 0 \<and> z3d (scene_Xs ! 1) \<noteq> 0" by (simp add: scene_Xs_def)
  note o = order_independent [OF h1 scene_entry_ok scene_nonzero,
      where T = 4 and problem = "[]" and lw = 4]
  have a: "markNoisyPoints scene_Xs scene_xs [camera_origin] scene_vis 4 =
     markNoisyPoints scene_Xs scene_xs [camera_origin] (rev scene_vis) 4"
    using o by blast
  then have b: "markNoisyPoints scene_Xs scene_xs [camera_origin] (rev scene_vis) 4 = Inr (1, scene_marked)"
    using scene_calls(1) by simp
  have c: "\<exists>bs1 bs2. addCostFunc11DOF [] scene_Xs scene_xs [camera_origin] scene_vis 4 = Inr (True, [] @ bs1) \<and>
              addCostFunc11DOF [] scene_Xs scene_xs [camera_origin] (rev scene_vis) 4 = Inr (True, [] @ bs2) \<and>
              mset bs1 = mset bs2"
    using o by blast
  show ?thesis
    using h1 scene_entry_ok_each nz a b c by blast
qed

text \<open>
  Claim C8. After a call to \<open>markNoisyPoints\<close> every point has the absolute value of its
  third coordinate, and its first two coordinates, as before; a point that was changed is
  restored by negating its third coordinate again.
\<close>

theorem magnitude_preserved:
  assumes "markNoisyPoints Xs xs views vis T = Inr (n, Xs')" and "i < length Xs"
  shows "\<bar>z3d (Xs' ! i)\<bar> = \<bar>z3d (Xs ! i)\<bar> \<and> x3d (Xs' ! i) = x3d (Xs ! i) \<and> y3d (Xs' ! i) = y3d (Xs ! i) \<and>
         (Xs' ! i = Xs ! i \<or> (Xs' ! i)\<lparr>z3d := z3d (Xs' ! i) * - 1\<rparr> = Xs ! i)"
proof -
  have "Xs' ! i = Xs ! i \<or> (valid (Xs ! i) \<and> Xs' ! i = negate_z (Xs ! i))"
    using markNoisyPoints_marked_from[OF assms(1)] assms(2) by (simp add: marked_from_def)
  then show ?thesis
    by (auto simp: negate_z_def)
qed

theorem magnitude_preserved_witness:
  "markNoisyPoints scene_Xs scene_xs [camera_origin] scene_vis 4 = Inr (1, scene_marked) \<and>
   (0::nat) < length scene_Xs \<and>
   \<bar>z3d (scene_marked ! 0)\<bar> = \<bar>z3d (scene_Xs ! 0)\<bar> \<and>
   scene_marked ! 0 \<noteq> scene_Xs ! 0 \<and>
   (scene_marked ! 0)\<lparr>z3d := z3d (scene_marked ! 0) * - 1\<rparr> = scene_Xs ! 0"
proof -
  have h2: "(0::nat) < length scene_Xs" by (simp add: scene_Xs_def)
  have ne: "scene_marked ! 0 \<noteq> scene_Xs ! 0" by (simp add: scene_Xs_def scene_marked_def)
  have "\<bar>z3d (scene_marked ! 0)\<bar> = \<bar>z3d (scene_Xs ! 0)\<bar> \<and>
     (scene_marked ! 0)\<lparr>z3d := z3d (scene_marked ! 0) * - 1\<rparr> = scene_Xs ! 0"
    using magnitude_preserved [OF scene_calls(1) h2] ne by blast
  then show ?thesis
    using scene_calls(1) h2 ne by blast
qed

text \<open>
  Claim C10. Let point \<open>j\<close> have third coordinate exactly 0 and let the threshold be positive.
  An iteration for an entry of point \<open>j\<close> whose squared error exceeds the threshold adds one
  to the count and leaves the points as they were. So after a call, and after a second call
  on its result, point \<open>j\<close> is unchanged and valid, and each of the two counts is at least
  the number of entries of point \<open>j\<close> that exceed the threshold.
\<close>

theorem zero_coordinate_counted_again:
  assumes T: "0 < T"
    and ok: "\<forall>v \<in> set vis. entry_ok Xs xs views v"
    and j: "j < length Xs" and z: "z3d (Xs ! j) = 0"
  shows "(\<forall>v \<in> set vis. unat (snd v) = j \<and> exceeds Xs xs views T v \<longrightarrow>
            mark_body xs views T v (Xs, n) = Inr (Xs, n + 1)) \<and>
         (\<exists>n1 Xs1 n2 Xs2.
           markNoisyPoints Xs xs views vis T = Inr (n1, Xs1) \<and>
           markNoisyPoints Xs1 xs views vis T = Inr (n2, Xs2) \<and>
           Xs1 ! j = Xs ! j \<and> Xs2 ! j = Xs ! j \<and> valid (Xs1 ! j) \<and> valid (Xs2 ! j) \<and>
           int (length (filter (\<lambda>v. unat (snd v) = j \<and> exceeds Xs xs views T v) vis)) \<le> n1 \<and>
           int (length (filter (\<lambda>v. unat (snd v) = j \<and> exceeds Xs xs views T v) vis)) \<le> n2)"
proof -
  have step: "\<forall>v \<in> set vis. unat (snd v) = j \<and> exceeds Xs xs views T v \<longrightarrow>
            mark_body xs views T v (Xs, n) = Inr (Xs, n + 1)"
  proof (intro ballI impI)
    fix v assume v: "v \<in> set vis" and h: "unat (snd v) = j \<and> exceeds Xs xs views T v"
    have "valid (Xs ! j)" using z by (simp add: valid_def)
    moreover have "Xs[j := negate_z (Xs ! j)] = Xs"
      using z by (simp add: negate_z_zero)
    ultimately show "mark_body xs views T v (Xs, n) = Inr (Xs, n + 1)"
      using mark_body_ok[of Xs xs views v T n] ok v h by simp
  qed
  let ?hits = "\<lambda>Ys. filter (\<lambda>v. unat (snd v) = j \<and> exceeds Ys xs views T v) vis"
  obtain Xs1 n1 where f1: "fold (mark_step xs views T) vis (Xs, 0) = (Xs1, n1)"
    by (cases "fold (mark_step xs views T) vis (Xs, 0)")
  have c1: "markNoisyPoints Xs xs views vis T = Inr (n1, Xs1)"
    using markNoisyPoints_fold[OF T ok] f1 by simp
  have p1: "Xs1 ! j = Xs ! j" and k1: "int (length (?hits Xs)) \<le> n1"
    using fold_mark_step_zero_point[OF j z f1] by simp_all
  have m1: "marked_from Xs Xs1"
    by (rule markNoisyPoints_marked_from[OF c1])
  then have len1: "length Xs1 = length Xs" by (simp add: marked_from_def)
  have ok1: "\<forall>v \<in> set vis. entry_ok Xs1 xs views v"
    using ok marked_from_entry_ok[OF m1] by blast
  have j1: "j < length Xs1" and z1: "z3d (Xs1 ! j) = 0"
    using j z len1 p1 by simp_all
  obtain Xs2 n2 where f2: "fold (mark_step xs views T) vis (Xs1, 0) = (Xs2, n2)"
    by (cases "fold (mark_step xs views T) vis (Xs1, 0)")
  have c2: "markNoisyPoints Xs1 xs views vis T = Inr (n2, Xs2)"
    using markNoisyPoints_fold[OF T ok1] f2 by simp
  have p2: "Xs2 ! j = Xs1 ! j" and k2: "int (length (?hits Xs1)) \<le> n2"
    using fold_mark_step_zero_point[OF j1 z1 f2] by simp_all
  have "?hits Xs1 = ?hits Xs"
  proof (rule filter_cong)
    fix v assume "v \<in> set vis"
    show "(unat (snd v) = j \<and> exceeds Xs1 xs views T v) = (unat (snd v) = j \<and> exceeds Xs xs views T v)"
      using p1 exceeds_same_point[of Xs1 v Xs xs views T] by auto
  qed simp
  then have k2': "int (length (?hits Xs)) \<le> n2" using k2 by simp
  have "valid (Xs ! j)" using z by (simp add: valid_def)
  then have "\<exists>n1 Xs1 n2 Xs2.
           markNoisyPoints Xs xs views vis T = Inr (n1, Xs1) \<and>
           markNoisyPoints Xs1 xs views vis T = Inr (n2, Xs2) \<and>
           Xs1 ! j = Xs ! j \<and> Xs2 ! j = Xs ! j \<and> valid (Xs1 ! j) \<and> valid (Xs2 ! j) \<and>
           int (length (?hits Xs)) \<le> n1 \<and> int (length (?hits Xs)) \<le> n2"
    using c1 c2 p1 p2 k1 k2' by simp
  with step show ?thesis by blast
qed

theorem zero_coordinate_counted_again_witness:
  "0 < (4::real) \<and>
   entry_ok flat_Xs flat_xs [camera_back] (genKey 0 0, 0) \<and>
   entry_ok flat_Xs flat_xs [camera_back] (genKey 0 1, 0) \<and>
   (0::nat) < length flat_Xs \<and> z3d (flat_Xs ! 0) = 0 \<and>
   exceeds flat_Xs flat_xs [camera_back] 4 (genKey 0 0, 0) \<and>
   exceeds flat_Xs flat_xs [camera_back] 4 (genKey 0 1, 0) \<and>
   mark_body flat_xs [camera_back] 4 (genKey 0 0, 0) (flat_Xs, 0) = Inr (flat_Xs, 0 + 1) \<and>
   mark_body flat_xs [camera_back] 4 (genKey 0 1, 0) (flat_Xs, 1) = Inr (flat_Xs, 1 + 1) \<and>
   markNoisyPoints flat_Xs flat_xs [camera_back] flat_vis 4 = Inr (2, flat_Xs) \<and>
   length (filter (\<lambda>v. unat (snd v) = 0 \<and> exceeds flat_Xs flat_xs [camera_back] 4 v) flat_vis) = 2"
proof -
  have h1: "0 < (4::real)" by simp
  have h3: "(0::nat) < length flat_Xs" by (simp add: flat_Xs_def)
  have h4: "z3d (flat_Xs ! 0) = 0" by (simp add: flat_Xs_def)
  have e0: "exceeds flat_Xs flat_xs [camera_back] 4 (genKey 0 0, 0)"
    and e1: "exceeds flat_Xs flat_xs [camera_back] 4 (genKey 0 1, 0)"
    by (simp_all add: exceeds_def flat_dist2)
  have h6: "length (filter (\<lambda>v. unat (snd v) = 0 \<and> exceeds flat_Xs flat_xs [camera_back] 4 v) flat_vis) = 2"
    using e0 e1 by (simp add: flat_vis_def)
  have m0: "(genKey 0 0, 0) \<in> set flat_vis" and m1: "(genKey 0 1, 0) \<in> set flat_vis"
    by (simp_all add: flat_vis_def)
  have s0: "mark_body flat_xs [camera_back] 4 (genKey 0 0, 0) (flat_Xs, 0) = Inr (flat_Xs, 0 + 1)"
    using zero_coordinate_counted_again [OF h1 flat_entry_ok h3 h4, where n = 0] m0 e0 by auto
  have s1: "mark_body flat_xs [camera_back] 4 (genKey 0 1, 0) (flat_Xs, 1) = Inr (flat_Xs, 1 + 1)"
    using zero_coordinate_counted_again [OF h1 flat_entry_ok h3 h4, where n = 1] m1 e1 by auto
  show ?thesis
    using h1 flat_entry_ok_each h3 h4 e0 e1 h6 s0 s1 flat_calls(2) by blast
qed

section \<open>The claims about the residuals\<close>

text \<open>
  Claim C6. When the full projection model maps the point to the observed pixel, the
  residual of \<open>ReprojectionError11DOF\<close> for that observation is \<open>(0, 0)\<close>.
\<close>

theorem zero_residual:
  assumes "project_full camera point = Some obs"
  shows "call11DOF \<lparr>x11 = obs\<rparr> camera point = Inr (0, 0)"
  using assms by (simp add: call11DOF_project_full)

theorem zero_residual_witness:
  "project_full camera_distorting \<lparr>x3d = 1, y3d = 0, z3d = 1\<rparr> = Some \<lparr>x2d = 5, y2d = 1\<rparr> \<and>
   call11DOF \<lparr>x11 = \<lparr>x2d = 5, y2d = 1\<rparr>\<rparr> camera_distorting \<lparr>x3d = 1, y3d = 0, z3d = 1\<rparr> = Inr (0, 0)"
proof -
  have h: "project_full camera_distorting \<lparr>x3d = 1, y3d = 0, z3d = 1\<rparr> = Some \<lparr>x2d = 5, y2d = 1\<rparr>"
    by (simp add: project_full_def AngleAxisRotatePoint_zero camera_distorting_def)
  show ?thesis
    using zero_residual [OF h] h by blast
qed

text \<open>
  Claim C7, as stated: the principal point of the 7-DOF residual is taken from another
  camera's parameters. With two cameras whose principal points are \<open>(1, 2)\<close> and \<open>(3, 4)\<close>,
  the residual built for an observation in image 0 holds \<open>(1, 2)\<close>, the principal point of
  camera 0 itself, and not that of the other camera.
\<close>

theorem principal_point_of_own_camera:
  "addCostFunc7DOF [] scene_Xs scene_xs [camera_a, camera_b] [(genKey 0 0, 0)] 4 =
     Inr (True, [\<lparr>cost_func = Cost7DOF \<lparr>x7 = \<lparr>x2d = 3, y2d = 0\<rparr>, c7 = \<lparr>x2d = 1, y2d = 2\<rparr>\<rparr>,
                  loss_func = Some (CauchyLoss 4), view_block = 0, X_block = 0\<rparr>]) \<and>
   \<lparr>x2d = camera_a ! 7, y2d = camera_a ! 8\<rparr> = \<lparr>x2d = 1, y2d = 2\<rparr> \<and>
   \<lparr>x2d = camera_b ! 7, y2d = camera_b ! 8\<rparr> \<noteq> \<lparr>x2d = 1, y2d = 2\<rparr>"
  by (simp add: addCostFunc7DOF_def body7DOF_def scene_keys make_loss_def Let_def
      scene_Xs_def scene_xs_def camera_a_def camera_b_def)

text \<open>
  Claim C7, amended: for each visibility entry \<open>addCostFunc7DOF\<close> registers a residual that
  holds the observation and a copy of entries 7 and 8 of the camera vector of the
  observation's own image, as they are when the residual is built, against that camera and
  the entry's point. The residual reads entries 0 to 6 of the camera block only: it applies
  no distortion, and later changes of entries 7 to 10 of the stored camera vectors do not
  change what it evaluates to.
\<close>

theorem snapshot7DOF:
  assumes r: "\<forall>v \<in> set vis. in_range Xs xs views v"
  shows "\<exists>bs. addCostFunc7DOF problem Xs xs views vis lw = Inr (True, problem @ bs) \<and>
           length bs = length vis \<and>
           (\<forall>i < length vis.
              cost_func (bs ! i) = Cost7DOF
                 \<lparr>x7 = pt (xs ! unat (getImIdx (fst (vis ! i))) ! unat (getPtIdx (fst (vis ! i)))),
                  c7 = \<lparr>x2d = views ! unat (getImIdx (fst (vis ! i))) ! 7,
                        y2d = views ! unat (getImIdx (fst (vis ! i))) ! 8\<rparr>\<rparr> \<and>
              view_block (bs ! i) = unat (getImIdx (fst (vis ! i))) \<and>
              X_block (bs ! i) = unat (snd (vis ! i)) \<and>
              (\<forall>views'. length views' = length views \<and>
                  (\<forall>k < 7. views' ! view_block (bs ! i) ! k = views ! view_block (bs ! i) ! k) \<longrightarrow>
                  evaluate_block Xs views' (bs ! i) = evaluate_block Xs views (bs ! i)))"
proof (intro exI conjI allI impI)
  show "addCostFunc7DOF problem Xs xs views vis lw = Inr (True, problem @ map (block7DOF xs views lw) vis)"
    by (rule addCostFunc7DOF_blocks[OF r])
  show "length (map (block7DOF xs views lw) vis) = length vis" by simp
next
  fix i assume i: "i < length vis"
  then have b: "map (block7DOF xs views lw) vis ! i = block7DOF xs views lw (vis ! i)"
    by simp
  show "cost_func (map (block7DOF xs views lw) vis ! i) = Cost7DOF
                 \<lparr>x7 = pt (xs ! unat (getImIdx (fst (vis ! i))) ! unat (getPtIdx (fst (vis ! i)))),
                  c7 = \<lparr>x2d = views ! unat (getImIdx (fst (vis ! i))) ! 7,
                        y2d = views ! unat (getImIdx (fst (vis ! i))) ! 8\<rparr>\<rparr>"
    by (simp add: b block7DOF_def)
  show "view_block (map (block7DOF xs views lw) vis ! i) = unat (getImIdx (fst (vis ! i)))"
    by (simp add: b block7DOF_def)
  show "X_block (map (block7DOF xs views lw) vis ! i) = unat (snd (vis ! i))"
    by (simp add: b block7DOF_def)
  fix views' :: "Vec11d list"
  assume a: "length views' = length views \<and>
     (\<forall>k < 7. views' ! view_block (map (block7DOF xs views lw) vis ! i) ! k =
               views ! view_block (map (block7DOF xs views lw) vis ! i) ! k)"
  let ?img = "unat (getImIdx (fst (vis ! i)))"
  have "\<forall>k < 7. views' ! ?img ! k = views ! ?img ! k"
    using a by (simp add: b block7DOF_def)
  then have "call7DOF c (views' ! ?img) p = call7DOF c (views ! ?img) p" for c p
    by (rule call7DOF_cong)
  then show "evaluate_block Xs views' (map (block7DOF xs views lw) vis ! i) =
             evaluate_block Xs views (map (block7DOF xs views lw) vis ! i)"
    using a by (simp add: b evaluate_block_def block7DOF_def)
qed

theorem snapshot7DOF_witness:
  "in_range scene_Xs scene_xs [camera_a] (genKey 0 0, 0) \<and>
   in_range scene_Xs scene_xs [camera_a] (genKey 0 1, 1) \<and>
   (\<exists>bs. addCostFunc7DOF [] scene_Xs scene_xs [camera_a] scene_vis 4 = Inr (True, [] @ bs) \<and>
      length bs = length scene_vis \<and>
      cost_func (bs ! 0) = Cost7DOF \<lparr>x7 = \<lparr>x2d = 3, y2d = 0\<rparr>, c7 = \<lparr>x2d = 1, y2d = 2\<rparr>\<rparr> \<and>
      evaluate_block scene_Xs [camera_b] (bs ! 0) = evaluate_block scene_Xs [camera_a] (bs ! 0) \<and>
      evaluate_block scene_Xs [camera_a] (bs ! 0) = Inr (2, - 2))"
proof -
  have h: "\<forall>v \<in> set scene_vis. in_range scene_Xs scene_xs [camera_a] v"
    by (simp add: scene_vis_def in_range_def scene_keys scene_Xs_def scene_xs_def)
  obtain bs where bs: "addCostFunc7DOF [] scene_Xs scene_xs [camera_a] scene_vis 4 = Inr (True, [] @ bs)"
    and len: "length bs = length scene_vis"
    and each: "\<forall>i < length scene_vis.
              cost_func (bs ! i) = Cost7DOF
                 \<lparr>x7 = pt (scene_xs ! unat (getImIdx (fst (scene_vis ! i))) ! unat (getPtIdx (fst (scene_vis ! i)))),
                  c7 = \<lparr>x2d = [camera_a] ! unat (getImIdx (fst (scene_vis ! i))) ! 7,
                        y2d = [camera_a] ! unat (getImIdx (fst (scene_vis ! i))) ! 8\<rparr>\<rparr> \<and>
              view_block (bs ! i) = unat (getImIdx (fst (scene_vis ! i))) \<and>
              X_block (bs ! i) = unat (snd (scene_vis ! i)) \<and>
              (\<forall>views'. length views' = length [camera_a] \<and>
                  (\<forall>k < 7. views' ! view_block (bs ! i) ! k = [camera_a] ! view_block (bs ! i) ! k) \<longrightarrow>
                  evaluate_block scene_Xs views' (bs ! i) = evaluate_block scene_Xs [camera_a] (bs ! i))"
    using snapshot7DOF [OF h, of "[]" 4] by blast
  have z: "(0::nat) < length scene_vis" by (simp add: scene_vis_def)
  have v0: "scene_vis ! 0 = (genKey 0 0, 0)" by (simp add: scene_vis_def)
  from each z have e0: "cost_func (bs ! 0) = Cost7DOF
                 \<lparr>x7 = pt (scene_xs ! unat (getImIdx (fst (scene_vis ! 0))) ! unat (getPtIdx (fst (scene_vis ! 0)))),
                  c7 = \<lparr>x2d = [camera_a] ! unat (getImIdx (fst (scene_vis ! 0))) ! 7,
                        y2d = [camera_a] ! unat (getImIdx (fst (scene_vis ! 0))) ! 8\<rparr>\<rparr>"
    and vb0: "view_block (bs ! 0) = unat (getImIdx (fst (scene_vis ! 0)))"
    and xb0: "X_block (bs ! 0) = unat (snd (scene_vis ! 0))"
    and ev0: "\<forall>views'. length views' = length [camera_a] \<and>
                  (\<forall>k < 7. views' ! view_block (bs ! 0) ! k = [camera_a] ! view_block (bs ! 0) ! k) \<longrightarrow>
                  evaluate_block scene_Xs views' (bs ! 0) = evaluate_block scene_Xs [camera_a] (bs ! 0)"
    by blast+
  have c: "cost_func (bs ! 0) = Cost7DOF \<lparr>x7 = \<lparr>x2d = 3, y2d = 0\<rparr>, c7 = \<lparr>x2d = 1, y2d = 2\<rparr>\<rparr>"
    using e0 by (simp add: v0 scene_keys scene_xs_def camera_a_def)
  have vb: "view_block (bs ! 0) = 0"
    using vb0 by (simp add: v0 scene_keys)
  have agree: "\<forall>k < 7. [camera_b] ! view_block (bs ! 0) ! k = [camera_a] ! view_block (bs ! 0) ! k"
  proof (intro allI impI)
    fix k :: nat assume "k < 7"
    then have "k = 0 \<or> k = 1 \<or> k = 2 \<or> k = 3 \<or> k = 4 \<or> k = 5 \<or> k = 6" by arith
    then show "[camera_b] ! view_block (bs ! 0) ! k = [camera_a] ! view_block (bs ! 0) ! k"
      unfolding vb by (elim disjE) (simp_all add: camera_a_def camera_b_def)
  qed
  have "length [camera_b] = length [camera_a]" by simp
  with ev0 agree
  have ev: "evaluate_block scene_Xs [camera_b] (bs ! 0) = evaluate_block scene_Xs [camera_a] (bs ! 0)"
    by blast
  have xb: "X_block (bs ! 0) = 0"
    using xb0 by (simp add: v0)
  have val: "evaluate_block scene_Xs [camera_a] (bs ! 0) = Inr (2, - 2)"
    by (simp add: evaluate_block_def c vb xb call7DOF_def AngleAxisRotatePoint_zero
        scene_Xs_def camera_a_def)
  show ?thesis
  proof (intro conjI exI)
    show "in_range scene_Xs scene_xs [camera_a] (genKey 0 0, 0)"
      using h by (simp add: scene_vis_def)
    show "in_range scene_Xs scene_xs [camera_a] (genKey 0 1, 1)"
      using h by (simp add: scene_vis_def)
    show "addCostFunc7DOF [] scene_Xs scene_xs [camera_a] scene_vis 4 = Inr (True, [] @ bs)" by (rule bs)
    show "length bs = length scene_vis" by (rule len)
    show "cost_func (bs ! 0) = Cost7DOF \<lparr>x7 = \<lparr>x2d = 3, y2d = 0\<rparr>, c7 = \<lparr>x2d = 1, y2d = 2\<rparr>\<rparr>" by (rule c)
    show "evaluate_block scene_Xs [camera_b] (bs ! 0) = evaluate_block scene_Xs [camera_a] (bs ! 0)" by (rule ev)
    show "evaluate_block scene_Xs [camera_a] (bs ! 0) = Inr (2, - 2)" by (rule val)
  qed
qed

end
